theory Spec2Isabelle
  imports Main
begin

section \<open>JavaScript values\<close>

text \<open>
  The registration code of \<^verbatim>\<open>register-commands.ts\<close> inspects untyped JavaScript
  values (\<^verbatim>\<open>typeof\<close>, truthiness, own keys), so the values are a datatype of their own:
  \<^item> numbers are the integers and \<open>NaN\<close> (the code only asks whether a value is a
    number and whether it is truthy);
  \<^item> a \<open>RegExp\<close> object is identified by its string form \<^verbatim>\<open>/source/flags\<close>, which is
    what \<^verbatim>\<open>toString()\<close> returns;
  \<^item> a function is identified by its source text;
  \<^item> a plain object is the list of its own enumerable properties, in the order in
    which JavaScript enumerates them.
\<close>

datatype jsval =
    JUndefined
  | JNull
  | JBool bool
  | JNum int
  | JNaN
  | JStr string
  | JRegExp string
  | JFunc string
  | JArr "jsval list"
  | JObj "(string \<times> jsval) list"

text \<open>Truthiness, as \<^verbatim>\<open>if (value)\<close> and \<^verbatim>\<open>!!value\<close> decide it.\<close>

fun truthy :: "jsval \<Rightarrow> bool" where
  "truthy JUndefined = False"
| "truthy JNull = False"
| "truthy (JBool b) = b"
| "truthy (JNum n) = (n \<noteq> 0)"
| "truthy JNaN = False"
| "truthy (JStr s) = (s \<noteq> [])"
| "truthy (JRegExp r) = True"
| "truthy (JFunc f) = True"
| "truthy (JArr xs) = True"
| "truthy (JObj kvs) = True"

subsection \<open>Decimal numerals\<close>

definition digit_char :: "nat \<Rightarrow> char" where
  "digit_char d =
     (if d = 0 then CHR ''0'' else if d = 1 then CHR ''1'' else if d = 2 then CHR ''2''
      else if d = 3 then CHR ''3'' else if d = 4 then CHR ''4'' else if d = 5 then CHR ''5''
      else if d = 6 then CHR ''6'' else if d = 7 then CHR ''7'' else if d = 8 then CHR ''8''
      else CHR ''9'')"

fun show_nat :: "nat \<Rightarrow> string" where
  "show_nat n = (if n < 10 then [digit_char n] else show_nat (n div 10) @ [digit_char (n mod 10)])"

declare show_nat.simps [simp del]

definition show_int :: "int \<Rightarrow> string" where
  "show_int i = (if i < 0 then CHR ''-'' # show_nat (nat (- i)) else show_nat (nat i))"

text \<open>
  An array index in canonical form (\<^verbatim>\<open>'0'\<close>, \<^verbatim>\<open>'17'\<close>, never \<^verbatim>\<open>'01'\<close>), read back as a
  number; \<open>None\<close> for any other key.
\<close>

definition digit_val :: "char \<Rightarrow> nat option" where
  "digit_val c =
     (let n = (of_char c :: nat) in if 48 \<le> n \<and> n \<le> 57 then Some (n - 48) else None)"

fun read_digits :: "nat \<Rightarrow> string \<Rightarrow> nat option" where
  "read_digits acc [] = Some acc"
| "read_digits acc (c # cs) =
     (case digit_val c of None \<Rightarrow> None | Some d \<Rightarrow> read_digits (10 * acc + d) cs)"

definition index_of_key :: "string \<Rightarrow> nat option" where
  "index_of_key k =
     (if k = [] then None
      else if hd k = CHR ''0'' \<and> tl k \<noteq> [] then None
      else read_digits 0 k)"

subsection \<open>Own properties\<close>

text \<open>
  \<open>getProp v k\<close> is the property read \<^verbatim>\<open>v[k]\<close> and \<open>hasOwn v k\<close> is
  \<^verbatim>\<open>hasOwnProperty.call(v, k)\<close>. Own properties only: what a value inherits from its
  prototype (\<^verbatim>\<open>toString\<close>, \<^verbatim>\<open>constructor\<close>) and the own properties of functions are not
  represented. Arrays and strings have their indices and \<^verbatim>\<open>length\<close>, a \<open>RegExp\<close> has
  \<^verbatim>\<open>lastIndex\<close>. A read of a property that is not there gives \<^verbatim>\<open>undefined\<close>.
\<close>

fun getProp :: "jsval \<Rightarrow> string \<Rightarrow> jsval" where
  "getProp (JObj kvs) k = (case map_of kvs k of Some v \<Rightarrow> v | None \<Rightarrow> JUndefined)"
| "getProp (JArr xs) k =
     (if k = ''length'' then JNum (int (length xs))
      else case index_of_key k of
             Some i \<Rightarrow> (if i < length xs then xs ! i else JUndefined)
           | None \<Rightarrow> JUndefined)"
| "getProp (JStr s) k =
     (if k = ''length'' then JNum (int (length s))
      else case index_of_key k of
             Some i \<Rightarrow> (if i < length s then JStr [s ! i] else JUndefined)
           | None \<Rightarrow> JUndefined)"
| "getProp (JRegExp r) k = (if k = ''lastIndex'' then JNum 0 else JUndefined)"
| "getProp v k = JUndefined"

fun hasOwn :: "jsval \<Rightarrow> string \<Rightarrow> bool" where
  "hasOwn (JObj kvs) k = (k \<in> set (map fst kvs))"
| "hasOwn (JArr xs) k =
     (k = ''length'' \<or> (case index_of_key k of Some i \<Rightarrow> i < length xs | None \<Rightarrow> False))"
| "hasOwn (JStr s) k =
     (k = ''length'' \<or> (case index_of_key k of Some i \<Rightarrow> i < length s | None \<Rightarrow> False))"
| "hasOwn (JRegExp r) k = (k = ''lastIndex'')"
| "hasOwn v k = False"

text \<open>
  The assignment \<^verbatim>\<open>o[k] = v\<close>. On a plain object an existing key keeps its place and a
  new key goes last. On an array an index beyond the end extends the array (the holes
  read as \<^verbatim>\<open>undefined\<close>); a named property of an array is not represented and is
  dropped. Other values are left as they are.
\<close>

fun alist_put :: "string \<Rightarrow> jsval \<Rightarrow> (string \<times> jsval) list \<Rightarrow> (string \<times> jsval) list" where
  "alist_put k v [] = [(k, v)]"
| "alist_put k v (p # ps) = (if fst p = k then (k, v) # ps else p # alist_put k v ps)"

fun assignValue :: "jsval \<Rightarrow> string \<Rightarrow> jsval \<Rightarrow> jsval" where
  "assignValue (JObj kvs) k v = JObj (alist_put k v kvs)"
| "assignValue (JArr xs) k v =
     (case index_of_key k of
        Some i \<Rightarrow> JArr ((xs @ replicate (Suc i - length xs) JUndefined)[i := v])
      | None \<Rightarrow> JArr xs)"
| "assignValue o' k v = o'"

section \<open>The lodash functions the code calls\<close>

definition lodash_isString :: "jsval \<Rightarrow> bool" where
  "lodash_isString v = (case v of JStr s \<Rightarrow> True | _ \<Rightarrow> False)"

definition lodash_isNumber :: "jsval \<Rightarrow> bool" where
  "lodash_isNumber v = (case v of JNum n \<Rightarrow> True | JNaN \<Rightarrow> True | _ \<Rightarrow> False)"

definition lodash_isBoolean :: "jsval \<Rightarrow> bool" where
  "lodash_isBoolean v = (case v of JBool b \<Rightarrow> True | _ \<Rightarrow> False)"

definition lodash_isUndefined :: "jsval \<Rightarrow> bool" where
  "lodash_isUndefined v = (v = JUndefined)"

text \<open>\<^verbatim>\<open>_.isObjectLike\<close>: not null and \<^verbatim>\<open>typeof value == 'object'\<close>.\<close>

definition lodash_isObjectLike :: "jsval \<Rightarrow> bool" where
  "lodash_isObjectLike v =
     (case v of JObj kvs \<Rightarrow> True | JArr xs \<Rightarrow> True | JRegExp r \<Rightarrow> True | _ \<Rightarrow> False)"

text \<open>\<^verbatim>\<open>_.isObject\<close>: not null and \<^verbatim>\<open>typeof\<close> is \<^verbatim>\<open>'object'\<close> or \<^verbatim>\<open>'function'\<close>.\<close>

definition lodash_isObject :: "jsval \<Rightarrow> bool" where
  "lodash_isObject v =
     (case v of JObj kvs \<Rightarrow> True | JArr xs \<Rightarrow> True | JRegExp r \<Rightarrow> True | JFunc f \<Rightarrow> True
      | _ \<Rightarrow> False)"

text \<open>
  \<^verbatim>\<open>_.keys\<close>: the own enumerable keys; the indices for an array or a string, nothing for
  the other values.
\<close>

definition lodash_keys :: "jsval \<Rightarrow> string list" where
  "lodash_keys v =
     (case v of
        JObj kvs \<Rightarrow> map fst kvs
      | JArr xs \<Rightarrow> map show_nat [0..<length xs]
      | JStr s \<Rightarrow> map show_nat [0..<length s]
      | _ \<Rightarrow> [])"

text \<open>
  \<^verbatim>\<open>_.isEmpty\<close>: \<^verbatim>\<open>null\<close> and \<^verbatim>\<open>undefined\<close> are empty, an array or a string is empty
  when its length is 0, any other value when it has no own enumerable key.
\<close>

definition lodash_isEmpty :: "jsval \<Rightarrow> bool" where
  "lodash_isEmpty v =
     (case v of JObj kvs \<Rightarrow> kvs = [] | JArr xs \<Rightarrow> xs = [] | JStr s \<Rightarrow> s = [] | _ \<Rightarrow> True)"

definition lodash_intersection :: "string list \<Rightarrow> string list \<Rightarrow> string list" where
  "lodash_intersection xs ys = remdups (filter (\<lambda>x. x \<in> set ys) xs)"

subsection \<open>Property paths\<close>

text \<open>
  \<^verbatim>\<open>_.get\<close>, \<^verbatim>\<open>_.has\<close> and \<^verbatim>\<open>_.set\<close> take a path. A string is one key when it is a
  plain property name or when the object has it as a key (\<^verbatim>\<open>isKey\<close>); otherwise it is
  cut into keys (\<^verbatim>\<open>stringToPath\<close>). For a string without brackets, cutting is splitting
  at every dot (\<open>stringToPath\<close> is only applied to a string that has a dot). The bracket forms of a path (\<^verbatim>\<open>a[0]\<close>, \<^verbatim>\<open>a["b"]\<close>) are not modelled:
  the theorems on matchers below exclude keys that contain a bracket.
\<close>

fun stringToPath :: "string \<Rightarrow> string list" where
  "stringToPath [] = [[]]"
| "stringToPath (c # cs) =
     (if c = CHR ''.'' then [] # stringToPath cs
      else case stringToPath cs of [] \<Rightarrow> [[c]] | w # ws \<Rightarrow> (c # w) # ws)"

definition isKey :: "string \<Rightarrow> jsval \<Rightarrow> bool" where
  "isKey p obj =
     (CHR ''.'' \<notin> set p \<or> (case obj of JObj kvs \<Rightarrow> p \<in> set (map fst kvs) | _ \<Rightarrow> False))"

definition castPath :: "string \<Rightarrow> jsval \<Rightarrow> string list" where
  "castPath p obj = (if isKey p obj then [p] else stringToPath p)"

text \<open>
  \<^verbatim>\<open>baseGet\<close> walks the keys while the value is neither \<^verbatim>\<open>null\<close> nor \<^verbatim>\<open>undefined\<close>, and
  gives \<^verbatim>\<open>undefined\<close> when it stops early.
\<close>

fun baseGet :: "jsval \<Rightarrow> string list \<Rightarrow> jsval" where
  "baseGet obj [] = obj"
| "baseGet obj (k # ks) =
     (if obj = JNull \<or> obj = JUndefined then JUndefined else baseGet (getProp obj k) ks)"

definition lodash_get :: "jsval \<Rightarrow> string \<Rightarrow> jsval" where
  "lodash_get obj p = baseGet obj (castPath p obj)"

text \<open>\<^verbatim>\<open>hasPath\<close> with \<^verbatim>\<open>baseHas\<close>: every key of the path is an own property.\<close>

fun hasPath :: "jsval \<Rightarrow> string list \<Rightarrow> bool" where
  "hasPath obj [] = False"
| "hasPath obj [k] = hasOwn obj k"
| "hasPath obj (k # ks) = (hasOwn obj k \<and> hasPath (getProp obj k) ks)"

definition lodash_has :: "jsval \<Rightarrow> string \<Rightarrow> bool" where
  "lodash_has obj p = hasPath obj (castPath p obj)"

text \<open>
  \<^verbatim>\<open>baseSet\<close>: the keys \<^verbatim>\<open>__proto__\<close>, \<^verbatim>\<open>constructor\<close> and \<^verbatim>\<open>prototype\<close> are never
  written; a missing or non-object value on the way is replaced by a new array when
  the next key is an index and by a new object otherwise.
\<close>

definition unsafeKey :: "string \<Rightarrow> bool" where
  "unsafeKey k = (k = ''__proto__'' \<or> k = ''constructor'' \<or> k = ''prototype'')"

fun baseSet :: "jsval \<Rightarrow> string list \<Rightarrow> jsval \<Rightarrow> jsval" where
  "baseSet nested [] v = nested"
| "baseSet nested [k] v = (if unsafeKey k then nested else assignValue nested k v)"
| "baseSet nested (k # k' # ks) v =
     (if unsafeKey k then nested
      else let objValue = getProp nested k;
               newValue = (if lodash_isObject objValue then objValue
                           else if index_of_key k' \<noteq> None then JArr [] else JObj [])
           in assignValue nested k (baseSet newValue (k' # ks) v))"

definition lodash_set :: "jsval \<Rightarrow> string \<Rightarrow> jsval \<Rightarrow> jsval" where
  "lodash_set obj p v = (if lodash_isObject obj then baseSet obj (castPath p obj) v else obj)"

text \<open>\<^verbatim>\<open>_.pick(object, paths)\<close> copies the paths the object has into a new object.\<close>

definition lodash_pick :: "jsval \<Rightarrow> string list \<Rightarrow> jsval" where
  "lodash_pick obj ps =
     fold (\<lambda>p r. if lodash_has obj p then baseSet r (castPath p obj) (lodash_get obj p) else r)
       ps (JObj [])"

text \<open>\<^verbatim>\<open>_.extend(object, source)\<close> assigns every enumerable property of the source.\<close>

definition lodash_extend :: "jsval \<Rightarrow> jsval \<Rightarrow> jsval" where
  "lodash_extend obj src =
     fold (\<lambda>k r. assignValue r k (getProp src k)) (lodash_keys src) obj"

subsection \<open>String forms\<close>

definition join_with :: "string \<Rightarrow> string list \<Rightarrow> string" where
  "join_with sep xs = (case xs of [] \<Rightarrow> [] | y # ys \<Rightarrow> y @ concat (map (\<lambda>z. sep @ z) ys))"

text \<open>
  \<^verbatim>\<open>String(value)\<close> and \<^verbatim>\<open>value.toString()\<close>; the code applies them to truthy values
  only.
\<close>

fun toString :: "jsval \<Rightarrow> string" where
  "toString JUndefined = ''undefined''"
| "toString JNull = ''null''"
| "toString (JBool b) = (if b then ''true'' else ''false'')"
| "toString (JNum n) = show_int n"
| "toString JNaN = ''NaN''"
| "toString (JStr s) = s"
| "toString (JRegExp r) = r"
| "toString (JFunc f) = f"
| "toString (JArr xs) =
     join_with '','' (map (\<lambda>x. if x = JNull \<or> x = JUndefined then [] else toString x) xs)"
| "toString (JObj kvs) = ''[object Object]''"

text \<open>
  \<^verbatim>\<open>JSON.stringify\<close>. \<open>None\<close> is the result \<^verbatim>\<open>undefined\<close> (for \<^verbatim>\<open>undefined\<close> and for a
  function); such a value is left out of an object and written \<^verbatim>\<open>null\<close> in an array.
\<close>

definition hex_char :: "nat \<Rightarrow> char" where
  "hex_char d =
     (if d < 10 then digit_char d else if d = 10 then CHR ''a'' else if d = 11 then CHR ''b''
      else if d = 12 then CHR ''c'' else if d = 13 then CHR ''d'' else if d = 14 then CHR ''e''
      else CHR ''f'')"

definition json_escape :: "char \<Rightarrow> string" where
  "json_escape c =
     (if c = CHR 0x22 then [CHR 0x5C, CHR 0x22]
      else if c = CHR 0x5C then [CHR 0x5C, CHR 0x5C]
      else if c = CHR 0x08 then [CHR 0x5C, CHR ''b'']
      else if c = CHR 0x09 then [CHR 0x5C, CHR ''t'']
      else if c = CHR 0x0A then [CHR 0x5C, CHR ''n'']
      else if c = CHR 0x0C then [CHR 0x5C, CHR ''f'']
      else if c = CHR 0x0D then [CHR 0x5C, CHR ''r'']
      else if (of_char c :: nat) < 32
        then [CHR 0x5C, CHR ''u'', CHR ''0'', CHR ''0'',
              hex_char ((of_char c :: nat) div 16), hex_char ((of_char c :: nat) mod 16)]
      else [c])"

definition json_quote :: "string \<Rightarrow> string" where
  "json_quote s = CHR 0x22 # concat (map json_escape s) @ [CHR 0x22]"

fun JSON_stringify :: "jsval \<Rightarrow> string option" where
  "JSON_stringify JUndefined = None"
| "JSON_stringify (JFunc f) = None"
| "JSON_stringify JNull = Some ''null''"
| "JSON_stringify (JBool b) = Some (if b then ''true'' else ''false'')"
| "JSON_stringify (JNum n) = Some (show_int n)"
| "JSON_stringify JNaN = Some ''null''"
| "JSON_stringify (JStr s) = Some (json_quote s)"
| "JSON_stringify (JRegExp r) = Some ''{}''"
| "JSON_stringify (JArr xs) =
     Some (''['' @ join_with '',''
             (map (\<lambda>x. case JSON_stringify x of None \<Rightarrow> ''null'' | Some t \<Rightarrow> t) xs) @ '']'')"
| "JSON_stringify (JObj kvs) =
     Some (''{'' @ join_with '',''
             (concat (map (\<lambda>kv. case JSON_stringify (snd kv) of
                                    None \<Rightarrow> []
                                  | Some t \<Rightarrow> [json_quote (fst kv) @ '':'' @ t]) kvs)) @ ''}'')"

section \<open>Matchers: fields, annotation, validation\<close>

definition STATIC_RESPONSE_KEYS :: "string list" where
  "STATIC_RESPONSE_KEYS = [''body'', ''fixture'', ''statusCode'', ''headers'', ''destroySocket'']"

text \<open>
  Modelled from the spec: \<^verbatim>\<open>STRING_MATCHER_FIELDS\<close> and \<^verbatim>\<open>DICT_STRING_MATCHER_FIELDS\<close>
  are imported from \<^verbatim>\<open>@packages/net-stubbing/lib/types\<close>, which is not part of the
  sources at hand. The spec's MatcherSpec has the string-or-pattern fields \<^verbatim>\<open>method\<close>
  and \<^verbatim>\<open>url\<close> and the mappings \<^verbatim>\<open>headers\<close> and \<^verbatim>\<open>query\<close> of field name to
  string-or-pattern.
\<close>

definition STRING_MATCHER_FIELDS :: "string list" where
  "STRING_MATCHER_FIELDS = [''method'', ''url'']"

definition DICT_STRING_MATCHER_FIELDS :: "string list" where
  "DICT_STRING_MATCHER_FIELDS = [''headers'', ''query'']"

text \<open>
  The callback of \<^verbatim>\<open>DICT_STRING_MATCHER_FIELDS.map\<close> returns the list of nested paths
  of a truthy value and \<^verbatim>\<open>''\<close> otherwise (here \<open>None\<close>); \<^verbatim>\<open>_.filter\<close> drops the \<^verbatim>\<open>''\<close>
  and \<^verbatim>\<open>_.flatten\<close> joins the lists.
\<close>

definition getAllStringMatcherFields :: "jsval \<Rightarrow> string list" where
  "getAllStringMatcherFields options =
     STRING_MATCHER_FIELDS @
     concat (map (\<lambda>x. case x of Some l \<Rightarrow> l | None \<Rightarrow> [])
       (filter (\<lambda>x. x \<noteq> None)
         (map (\<lambda>field.
                 let v = getProp options field
                 in if truthy v then Some (map (\<lambda>key. field @ ''.'' @ key) (lodash_keys v))
                    else None)
            DICT_STRING_MATCHER_FIELDS)))"

definition isRegExp :: "jsval \<Rightarrow> bool" where
  "isRegExp obj = (truthy obj \<and> (case obj of JRegExp r \<Rightarrow> True | _ \<Rightarrow> False))"

definition isStringMatcher :: "jsval \<Rightarrow> bool" where
  "isStringMatcher obj = (isRegExp obj \<or> lodash_isString obj)"

definition isNumberMatcher :: "jsval \<Rightarrow> bool" where
  "isNumberMatcher obj =
     (case obj of JArr xs \<Rightarrow> list_all lodash_isNumber xs | _ \<Rightarrow> lodash_isNumber obj)"

definition isHttpRequestInterceptor :: "jsval \<Rightarrow> bool" where
  "isHttpRequestInterceptor obj = (case obj of JFunc f \<Rightarrow> True | _ \<Rightarrow> False)"

text \<open>
  The object literal \<^verbatim>\<open>{type: ..., value: value.toString()} as AnnotatedStringMatcher\<close>
  that \<^verbatim>\<open>annotateMatcherOptionsTypes\<close> stores for a value.
\<close>

definition AnnotatedStringMatcher :: "jsval \<Rightarrow> jsval" where
  "AnnotatedStringMatcher v =
     JObj [(''type'', JStr (if isRegExp v then ''regex'' else ''glob'')),
           (''value'', JStr (toString v))]"

definition annotateMatcherOptionsTypes :: "jsval \<Rightarrow> jsval" where
  "annotateMatcherOptionsTypes options =
     (let ret = fold (\<lambda>field ret.
                   let v = lodash_get options field
                   in if truthy v then lodash_set ret field (AnnotatedStringMatcher v) else ret)
                 (getAllStringMatcherFields options) (JObj []);
          noAnnotationRequiredFields = [''https'', ''port'', ''webSocket'']
      in lodash_extend ret (lodash_pick options noAnnotationRequiredFields))"

text \<open>
  \<^verbatim>\<open>validateRouteMatcherOptions\<close> throws an \<^verbatim>\<open>Error\<close> or returns nothing: the result is
  the message of the error thrown, \<open>None\<close> when the matcher is accepted. The
  \<^verbatim>\<open>forEach\<close> throws at the first path that fails.
\<close>

definition validateRouteMatcherOptions :: "jsval \<Rightarrow> string option" where
  "validateRouteMatcherOptions routeMatcher =
     (if lodash_isEmpty routeMatcher
      then Some ''The RouteMatcher does not contain any keys. You must pass something to match on.''
      else case find (\<lambda>path. lodash_has routeMatcher path
                             \<and> \<not> isStringMatcher (lodash_get routeMatcher path))
                  (getAllStringMatcherFields routeMatcher) of
             Some path \<Rightarrow> Some (''`'' @ path @ ''` must be a string or a regular expression.'')
           | None \<Rightarrow>
               if lodash_has routeMatcher ''https''
                  \<and> \<not> lodash_isBoolean (getProp routeMatcher ''https'')
               then Some ''`https` must be a boolean.''
               else if lodash_has routeMatcher ''port''
                       \<and> \<not> isNumberMatcher (getProp routeMatcher ''port'')
               then Some ''`port` must be a number or a list of numbers.''
               else None)"

section \<open>Registration\<close>

text \<open>
  The configuration passed to \<^verbatim>\<open>Cypress.log\<close> by \<^verbatim>\<open>getNewRouteLog\<close> (without the
  \<^verbatim>\<open>consoleProps\<close> closure), the entry stored under \<^verbatim>\<open>state('routes')[handlerId]\<close> and
  the frame of the \<^verbatim>\<open>route:added\<close> event.
\<close>

record route_log =
  log_name :: string
  log_instrument :: string
  log_isStubbed :: bool
  log_numResponses :: nat
  log_response :: jsval
  log_method :: string
  log_url :: string
  log_status :: "jsval option"
  log_alias :: "string option"

record route_entry =
  log :: route_log
  options :: jsval
  handler :: jsval
  hitCount :: nat
  requests :: "(string \<times> jsval) list"
  route_alias :: "string option"

record add_route_frame =
  handlerId :: string
  routeMatcher :: jsval
  staticResponse :: "jsval option"

text \<open>
  What the registration reads and writes outside its arguments: the configuration flag
  \<^verbatim>\<open>experimentalNetworkMocking\<close>, the counter behind \<^verbatim>\<open>_.uniqueId()\<close>, the clock read
  by \<^verbatim>\<open>new Date()\<close> (milliseconds), the alias \<^verbatim>\<open>cy.getNextAlias()\<close> returns, the route
  table \<^verbatim>\<open>state('routes')\<close> and the events handed to \<^verbatim>\<open>emitNetEvent\<close>, oldest first.
\<close>

record driver_state =
  experimentalNetworkMocking :: bool
  idCounter :: nat
  now :: int
  nextAlias :: "string option"
  routes :: "string \<rightharpoonup> route_entry"
  emitted :: "(string \<times> add_route_frame) list"

datatype error =
    Route2NeedsExperimental
  | InvalidRouteMatcher string jsval
  | InvalidStaticResponse string jsval
  | InvalidHandler jsval

text \<open>
  \<^verbatim>\<open>_.uniqueId()\<close> increments the counter and returns its new value as a string. The
  counter is a natural number here; the JavaScript number counts exactly up to
  \<open>2^53\<close>, far beyond the registrations of one process.
\<close>

definition getUniqueId :: "driver_state \<Rightarrow> string \<times> driver_state" where
  "getUniqueId s =
     (let n = Suc (idCounter s)
      in (show_int (now s) @ ''-'' @ show_nat n, s\<lparr>idCounter := n\<rparr>))"

definition getNewRouteLog :: "jsval \<Rightarrow> bool \<Rightarrow> string option \<Rightarrow> jsval \<Rightarrow> route_log" where
  "getNewRouteLog matcher stubbed al sr =
     (let response0 =
            (if truthy sr
             then (if truthy (getProp sr ''body'') then getProp sr ''body''
                   else JStr ''< empty body >'')
             else JStr (if stubbed then ''< callback function >'' else ''< passthrough >''));
          field = (\<lambda>k. if truthy (getProp matcher k) then toString (getProp matcher k) else ''*'');
          status = (if truthy sr
                    then Some (if truthy (getProp sr ''statusCode'') then getProp sr ''statusCode''
                               else JNum 200)
                    else None);
          response1 =
            (if truthy sr
             then (if truthy (getProp sr ''body'') then getProp sr ''body''
                   else JStr ''<empty body>'')
             else response0);
          response2 =
            (if \<not> truthy response1
             then JStr (if stubbed then ''<callback function'' else ''<passthrough>'')
             else response1)
      in \<lparr> log_name = ''route'', log_instrument = ''route'', log_isStubbed = stubbed,
           log_numResponses = 0, log_response = response2,
           log_method = field ''method'', log_url = field ''url'', log_status = status,
           log_alias = (case al of Some a \<Rightarrow> if a \<noteq> [] then Some a else None | None \<Rightarrow> None) \<rparr>)"

text \<open>
  \<^verbatim>\<open>addRoute\<close>. Its two imports from \<^verbatim>\<open>./static-response-utils\<close> are parameters:
  \<open>validateSR\<close> is \<^verbatim>\<open>validateStaticResponse\<close> (the message of the error it throws, or
  \<open>None\<close>) and \<open>backendSR\<close> is \<^verbatim>\<open>getBackendStaticResponse\<close>. A throw leaves the state as
  it is at that point, so the result is the outcome together with the state.
\<close>

definition addRoute ::
  "(jsval \<Rightarrow> string option) \<Rightarrow> (jsval \<Rightarrow> jsval) \<Rightarrow> jsval \<Rightarrow> jsval \<Rightarrow> driver_state
     \<Rightarrow> (error + unit) \<times> driver_state" where
  "addRoute validateSR backendSR matcher hdl s =
     (let (hid, s1) = getUniqueId s;
          al = nextAlias s1;
          frame = \<lparr> handlerId = hid, routeMatcher = annotateMatcherOptionsTypes matcher,
                    staticResponse = None \<rparr>;
          switch =
            (if isHttpRequestInterceptor hdl then Inr (hdl, JUndefined)
             else if lodash_isUndefined hdl then Inr (hdl, JUndefined)
             else if lodash_isString hdl then Inr (hdl, JObj [(''body'', hdl)])
             else if lodash_isObjectLike hdl then
               (let hdl' =
                      (if length (lodash_intersection (lodash_keys hdl) STATIC_RESPONSE_KEYS) = 0
                          \<and> \<not> lodash_isEmpty hdl
                       then JObj [(''body'', (case JSON_stringify hdl of Some t \<Rightarrow> JStr t
                                              | None \<Rightarrow> JUndefined)),
                                  (''headers'', JObj [(''content-type'', JStr ''application/json'')])]
                       else hdl)
                in case validateSR hdl' of
                     Some err \<Rightarrow> Inl (InvalidStaticResponse err hdl')
                   | None \<Rightarrow> Inr (hdl', hdl'))
             else Inl (InvalidHandler hdl))
      in case switch of
           Inl e \<Rightarrow> (Inl e, s1)
         | Inr (hdl', sr) \<Rightarrow>
             (let frame' = (if truthy sr then frame\<lparr>staticResponse := Some (backendSR sr)\<rparr>
                            else frame);
                  entry = \<lparr> log = getNewRouteLog matcher (truthy hdl') al sr,
                            options = matcher, handler = hdl', hitCount = 0, requests = [],
                            route_alias = (case al of Some a \<Rightarrow> if a \<noteq> [] then Some a else None
                                          | None \<Rightarrow> None) \<rparr>
              in (Inr (),
                  s1\<lparr> routes := (routes s1)(hid \<mapsto> entry),
                      emitted := emitted s1 @ [(''route:added'', frame')] \<rparr>)))"

text \<open>
  \<^verbatim>\<open>getMatcherOptions\<close> (local to \<^verbatim>\<open>route2\<close>) returns the matcher options; in the
  \<^verbatim>\<open>(method, url, handler)\<close> form it also reassigns \<^verbatim>\<open>handler\<close>, so the result carries
  the handler that \<^verbatim>\<open>addRoute\<close> will receive.
\<close>

definition getMatcherOptions :: "jsval \<Rightarrow> jsval \<Rightarrow> jsval \<Rightarrow> jsval \<times> jsval" where
  "getMatcherOptions matcher hdl arg2 =
     (if lodash_isString matcher \<and> isStringMatcher hdl \<and> truthy arg2
      then (JObj [(''method'', matcher), (''url'', hdl)], arg2)
      else if isStringMatcher matcher
      then (JObj [(''url'', matcher)], hdl)
      else (matcher, hdl))"

text \<open>
  \<^verbatim>\<open>route2\<close>. \<^verbatim>\<open>$errUtils.throwErrByPath\<close> throws the error named by its path, so a
  matcher that fails validation never reaches \<^verbatim>\<open>addRoute\<close>.
\<close>

definition route2 ::
  "(jsval \<Rightarrow> string option) \<Rightarrow> (jsval \<Rightarrow> jsval) \<Rightarrow> jsval \<Rightarrow> jsval \<Rightarrow> jsval \<Rightarrow> driver_state
     \<Rightarrow> (error + unit) \<times> driver_state" where
  "route2 validateSR backendSR matcher hdl arg2 s =
     (if \<not> experimentalNetworkMocking s then (Inl Route2NeedsExperimental, s)
      else let (routeMatcherOptions, hdl') = getMatcherOptions matcher hdl arg2
           in case validateRouteMatcherOptions routeMatcherOptions of
                Some err \<Rightarrow> (Inl (InvalidRouteMatcher err routeMatcherOptions), s)
              | None \<Rightarrow> addRoute validateSR backendSR routeMatcherOptions hdl' s)"

subsection \<open>The static-response helpers\<close>

text \<open>
  Modelled from the spec: \<^verbatim>\<open>validateStaticResponse\<close> of \<^verbatim>\<open>./static-response-utils\<close> is
  not part of the sources at hand. The spec's Static Response Normalizer rejects a
  response that sets both \<^verbatim>\<open>destroySocket\<close> and a body or a status code.
\<close>

definition validateStaticResponse :: "jsval \<Rightarrow> string option" where
  "validateStaticResponse sr =
     (if truthy (getProp sr ''destroySocket'') \<and> (hasOwn sr ''body'' \<or> hasOwn sr ''statusCode'')
      then Some ''`destroySocket`, if passed, must be the only option in the StaticResponse.''
      else None)"

text \<open>
  Modelled from the spec: \<^verbatim>\<open>getBackendStaticResponse\<close> of \<^verbatim>\<open>./static-response-utils\<close>
  is not part of the sources at hand. The spec's Static Response Normalizer applies
  the defaults: status code 200 if absent, a placeholder body if absent, empty headers
  if absent.
\<close>

definition getBackendStaticResponse :: "jsval \<Rightarrow> jsval" where
  "getBackendStaticResponse sr =
     (let sr1 = (if hasOwn sr ''statusCode'' then sr else assignValue sr ''statusCode'' (JNum 200));
          sr2 = (if hasOwn sr1 ''body'' then sr1 else assignValue sr1 ''body'' (JStr ''<empty body>''));
          sr3 = (if hasOwn sr2 ''headers'' then sr2 else assignValue sr2 ''headers'' (JObj []))
      in sr3)"

section \<open>Sequences of registrations\<close>

text \<open>
  A driver state in which the experimental flag is set and nothing has been registered.
\<close>

definition fresh_state :: driver_state where
  "fresh_state =
     \<lparr> experimentalNetworkMocking = True, idCounter = 0, now = 1600000000000,
       nextAlias = None, routes = Map.empty, emitted = [] \<rparr>"

text \<open>
  What happens in one process between and around registrations: a call of \<^verbatim>\<open>route2\<close>
  (whatever its outcome), the clock showing another time, \<^verbatim>\<open>.as()\<close> setting the next
  alias, other code taking a number from \<^verbatim>\<open>_.uniqueId()\<close>.
\<close>

datatype event =
    Register jsval jsval jsval
  | ClockReads int
  | AliasSet "string option"
  | UniqueIdTaken

fun step ::
  "(jsval \<Rightarrow> string option) \<Rightarrow> (jsval \<Rightarrow> jsval) \<Rightarrow> event \<Rightarrow> driver_state \<Rightarrow> driver_state" where
  "step validateSR backendSR (Register matcher hdl arg2) s =
     snd (route2 validateSR backendSR matcher hdl arg2 s)"
| "step validateSR backendSR (ClockReads t) s = s\<lparr>now := t\<rparr>"
| "step validateSR backendSR (AliasSet al) s = s\<lparr>nextAlias := al\<rparr>"
| "step validateSR backendSR UniqueIdTaken s = s\<lparr>idCounter := Suc (idCounter s)\<rparr>"

definition run ::
  "(jsval \<Rightarrow> string option) \<Rightarrow> (jsval \<Rightarrow> jsval) \<Rightarrow> event list \<Rightarrow> driver_state \<Rightarrow> driver_state" where
  "run validateSR backendSR evs s = fold (step validateSR backendSR) evs s"

section \<open>The claims on matchers, in the spec's words\<close>

text \<open>
  The spec's conditions for a malformed matcher: the spec is empty; a string or pattern
  capable field, a nested entry of \<^verbatim>\<open>headers\<close> or \<^verbatim>\<open>query\<close> included, is present with a
  value that is neither a string nor a pattern object; \<^verbatim>\<open>https\<close> is present and not a
  boolean; \<^verbatim>\<open>port\<close> is present and is neither a number nor a list of numbers.
\<close>

definition isStringOrPattern :: "jsval \<Rightarrow> bool" where
  "isStringOrPattern v = (case v of JStr s \<Rightarrow> True | JRegExp r \<Rightarrow> True | _ \<Rightarrow> False)"

definition isNumberOrNumberList :: "jsval \<Rightarrow> bool" where
  "isNumberOrNumberList v =
     (case v of
        JNum n \<Rightarrow> True
      | JNaN \<Rightarrow> True
      | JArr xs \<Rightarrow> list_all (\<lambda>x. case x of JNum n \<Rightarrow> True | JNaN \<Rightarrow> True | _ \<Rightarrow> False) xs
      | _ \<Rightarrow> False)"

definition MalformedMatcher_spec :: "jsval \<Rightarrow> bool" where
  "MalformedMatcher_spec m =
     (lodash_isEmpty m
      \<or> (\<exists>f \<in> set STRING_MATCHER_FIELDS. hasOwn m f \<and> \<not> isStringOrPattern (getProp m f))
      \<or> (\<exists>d \<in> set DICT_STRING_MATCHER_FIELDS.
            \<exists>k \<in> set (lodash_keys (getProp m d)). \<not> isStringOrPattern (getProp (getProp m d) k))
      \<or> (hasOwn m ''https'' \<and> \<not> (case getProp m ''https'' of JBool b \<Rightarrow> True | _ \<Rightarrow> False))
      \<or> (hasOwn m ''port'' \<and> \<not> isNumberOrNumberList (getProp m ''port'')))"

text \<open>
  Keys that a path does not take apart: no dot and no bracket. A plain matcher is an
  object whose keys are plain and in which \<^verbatim>\<open>headers\<close> and \<^verbatim>\<open>query\<close>, where they have
  keys at all, are objects with distinct plain keys.
\<close>

definition plainKey :: "string \<Rightarrow> bool" where
  "plainKey k = (CHR ''.'' \<notin> set k \<and> CHR ''['' \<notin> set k \<and> CHR '']'' \<notin> set k)"

definition plainDict :: "jsval \<Rightarrow> bool" where
  "plainDict v =
     (case v of JObj es \<Rightarrow> distinct (map fst es) \<and> list_all plainKey (map fst es)
      | _ \<Rightarrow> lodash_keys v = [])"

definition plainMatcher :: "jsval \<Rightarrow> bool" where
  "plainMatcher m =
     (case m of
        JObj kvs \<Rightarrow> list_all plainKey (map fst kvs)
                    \<and> list_all (\<lambda>d. plainDict (getProp m d)) DICT_STRING_MATCHER_FIELDS
      | _ \<Rightarrow> False)"

text \<open>
  A simple matcher is a plain matcher in which, moreover, no key of \<^verbatim>\<open>headers\<close> or
  \<^verbatim>\<open>query\<close> is an array index or one of the keys that \<^verbatim>\<open>_.set\<close> refuses to write.
\<close>

definition simpleKey :: "string \<Rightarrow> bool" where
  "simpleKey k = (plainKey k \<and> index_of_key k = None \<and> \<not> unsafeKey k)"

definition simpleDict :: "jsval \<Rightarrow> bool" where
  "simpleDict v =
     (case v of JObj es \<Rightarrow> distinct (map fst es) \<and> list_all simpleKey (map fst es)
      | _ \<Rightarrow> lodash_keys v = [])"

definition simpleMatcher :: "jsval \<Rightarrow> bool" where
  "simpleMatcher m =
     (case m of
        JObj kvs \<Rightarrow> list_all plainKey (map fst kvs)
                    \<and> list_all (\<lambda>d. simpleDict (getProp m d)) DICT_STRING_MATCHER_FIELDS
      | _ \<Rightarrow> False)"

section \<open>The receiving side\<close>

text \<open>
  Modelled from the spec: the code that rehydrates an annotated matcher runs in the
  backend and is not part of the sources at hand. By the spec it reconstructs, on the
  receiving side, a native pattern from a value tagged as a pattern (\<^verbatim>\<open>type: 'regex'\<close> in
  the code's frames) and a string from any other tagged value, for every string or
  pattern capable field of the annotated form, nested entries of \<^verbatim>\<open>headers\<close> and
  \<^verbatim>\<open>query\<close> included, and takes \<^verbatim>\<open>https\<close>, \<^verbatim>\<open>port\<close> and \<^verbatim>\<open>webSocket\<close> as they are. It is
  written as the mirror image of \<^verbatim>\<open>annotateMatcherOptionsTypes\<close>.
\<close>

definition restoreStringMatcher :: "jsval \<Rightarrow> jsval" where
  "restoreStringMatcher a =
     (if getProp a ''type'' = JStr ''regex'' then JRegExp (toString (getProp a ''value''))
      else getProp a ''value'')"

definition rehydrate :: "jsval \<Rightarrow> jsval" where
  "rehydrate annotated =
     (let ret = fold (\<lambda>field ret.
                   let a = lodash_get annotated field
                   in if truthy a then lodash_set ret field (restoreStringMatcher a) else ret)
                 (getAllStringMatcherFields annotated) (JObj []);
          noAnnotationRequiredFields = [''https'', ''port'', ''webSocket'']
      in lodash_extend ret (lodash_pick annotated noAnnotationRequiredFields))"

section \<open>Annotation in closed form\<close>

text \<open>
  The loop body shared by annotation and rehydration, and the object both build from a
  simple matcher: the truthy string fields and the truthy entries of \<^verbatim>\<open>headers\<close> and
  \<^verbatim>\<open>query\<close>, each mapped by \<open>g\<close>, then \<^verbatim>\<open>https\<close>, \<^verbatim>\<open>port\<close> and \<^verbatim>\<open>webSocket\<close> where present.
  These are used in the proofs only.
\<close>

definition fieldStep :: "(jsval \<Rightarrow> jsval) \<Rightarrow> jsval \<Rightarrow> string \<Rightarrow> jsval \<Rightarrow> jsval" where
  "fieldStep g opts field ret =
     (let v = lodash_get opts field
      in if truthy v then lodash_set ret field (g v) else ret)"

definition dictEntries :: "(jsval \<Rightarrow> jsval) \<Rightarrow> jsval \<Rightarrow> string list \<Rightarrow> (string \<times> jsval) list" where
  "dictEntries g v ks = map (\<lambda>k. (k, g (getProp v k))) (filter (\<lambda>k. truthy (getProp v k)) ks)"

definition topEntry :: "(jsval \<Rightarrow> jsval) \<Rightarrow> jsval \<Rightarrow> string \<Rightarrow> (string \<times> jsval) list" where
  "topEntry g m f = (if truthy (getProp m f) then [(f, g (getProp m f))] else [])"

definition dictEntry :: "(jsval \<Rightarrow> jsval) \<Rightarrow> jsval \<Rightarrow> string \<Rightarrow> (string \<times> jsval) list" where
  "dictEntry g m d =
     (if dictEntries g (getProp m d) (lodash_keys (getProp m d)) = [] then []
      else [(d, JObj (dictEntries g (getProp m d) (lodash_keys (getProp m d))))])"

definition pickedEntry :: "jsval \<Rightarrow> string \<Rightarrow> (string \<times> jsval) list" where
  "pickedEntry m f = (if hasOwn m f then [(f, getProp m f)] else [])"

definition mappedMatcher :: "(jsval \<Rightarrow> jsval) \<Rightarrow> jsval \<Rightarrow> jsval" where
  "mappedMatcher g m =
     JObj (topEntry g m ''method'' @ topEntry g m ''url''
           @ dictEntry g m ''headers'' @ dictEntry g m ''query''
           @ pickedEntry m ''https'' @ pickedEntry m ''port'' @ pickedEntry m ''webSocket'')"

section \<open>Evaluating the model on concrete inputs\<close>

lemmas eval_defs = route2_def addRoute_def getMatcherOptions_def validateRouteMatcherOptions_def
  getAllStringMatcherFields_def annotateMatcherOptionsTypes_def getUniqueId_def getNewRouteLog_def
  lodash_isString_def lodash_isNumber_def lodash_isBoolean_def lodash_isUndefined_def
  lodash_isObjectLike_def lodash_isObject_def lodash_keys_def lodash_isEmpty_def
  lodash_intersection_def lodash_get_def lodash_has_def lodash_set_def lodash_pick_def
  lodash_extend_def isKey_def castPath_def AnnotatedStringMatcher_def isRegExp_def isStringMatcher_def isNumberMatcher_def
  isHttpRequestInterceptor_def STATIC_RESPONSE_KEYS_def STRING_MATCHER_FIELDS_def
  DICT_STRING_MATCHER_FIELDS_def validateStaticResponse_def getBackendStaticResponse_def
  fresh_state_def run_def Let_def join_with_def json_quote_def json_escape_def show_int_def
  show_nat.simps index_of_key_def digit_val_def digit_char_def hex_char_def unsafeKey_def


section \<open>Decimal numerals are injective\<close>

lemma digit_char_inj: "a < 10 \<Longrightarrow> b < 10 \<Longrightarrow> digit_char a = digit_char b \<Longrightarrow> a = b"
  by (simp add: digit_char_def split: if_splits) presburger

lemma digit_char_not_dash: "digit_char d \<noteq> CHR ''-''" "CHR ''-'' \<noteq> digit_char d"
  by (simp_all add: digit_char_def)

lemma show_nat_not_Nil: "show_nat n \<noteq> []"
  by (subst show_nat.simps) simp

lemma dash_notin_show_nat: "CHR ''-'' \<notin> set (show_nat n)"
proof (induction n rule: show_nat.induct)
  case (1 n)
  show ?case
  proof (cases "n < 10")
    case True
    then show ?thesis by (subst show_nat.simps) (simp add: digit_char_not_dash)
  next
    case False
    with 1 show ?thesis by (subst show_nat.simps) (simp add: digit_char_not_dash)
  qed
qed

lemma show_nat_inj: "show_nat m = show_nat n \<Longrightarrow> m = n"
proof (induction m arbitrary: n rule: show_nat.induct)
  case (1 m)
  show ?case
  proof (cases "m < 10")
    case mt: True
    show ?thesis
    proof (cases "n < 10")
      case True
      with mt 1(2) show ?thesis
        by (simp add: show_nat.simps[of m] show_nat.simps[of n] digit_char_inj)
    next
      case False
      with mt 1(2) show_nat_not_Nil[of "n div 10"] show ?thesis
        by (simp add: show_nat.simps[of m] show_nat.simps[of n])
    qed
  next
    case mf: False
    show ?thesis
    proof (cases "n < 10")
      case True
      with mf 1(2) show_nat_not_Nil[of "m div 10"] show ?thesis
        by (simp add: show_nat.simps[of m] show_nat.simps[of n])
    next
      case False
      with mf 1(2) have "show_nat (m div 10) = show_nat (n div 10)"
        and "digit_char (m mod 10) = digit_char (n mod 10)"
        by (simp_all add: show_nat.simps[of m] show_nat.simps[of n])
      with 1(1)[OF mf] have "m div 10 = n div 10" "m mod 10 = n mod 10"
        by (auto intro: digit_char_inj)
      then show ?thesis by (metis div_mult_mod_eq)
    qed
  qed
qed

lemma suffix_after_dash:
  assumes "a @ CHR ''-'' # x = b @ CHR ''-'' # y" "CHR ''-'' \<notin> set x" "CHR ''-'' \<notin> set y"
  shows "x = y"
proof -
  have "rev x @ CHR ''-'' # rev a = rev y @ CHR ''-'' # rev b"
    using assms(1) by (metis rev.simps(2) rev_append rev_rev_ident append.assoc append_Cons append_Nil)
  then have "takeWhile (\<lambda>c. c \<noteq> CHR ''-'') (rev x @ CHR ''-'' # rev a)
           = takeWhile (\<lambda>c. c \<noteq> CHR ''-'') (rev y @ CHR ''-'' # rev b)" by simp
  moreover have "takeWhile (\<lambda>c. c \<noteq> CHR ''-'') (rev x) = rev x"
    "takeWhile (\<lambda>c. c \<noteq> CHR ''-'') (rev y) = rev y"
    using assms(2,3) by (auto simp: takeWhile_eq_all_conv)
  ultimately have "rev x = rev y"
    using assms(2,3) by (simp add: takeWhile_tail)
  then show ?thesis by simp
qed

section \<open>What a call of addRoute leaves behind\<close>

lemma addRoute_Inl:
  assumes "addRoute V B m h s = (Inl e, s')"
  shows "s' = s\<lparr>idCounter := Suc (idCounter s)\<rparr>"
  using assms
  by (auto simp: addRoute_def getUniqueId_def Let_def split: if_splits option.splits)

lemma addRoute_Inl_kind:
  assumes "addRoute V B m h s = (Inl e, s')"
  shows "e = InvalidHandler h \<or> (\<exists>err h'. e = InvalidStaticResponse err h')"
  using assms
  by (auto simp: addRoute_def getUniqueId_def Let_def split: if_splits option.splits)

lemma addRoute_Inr:
  assumes "addRoute V B m h s = (Inr u, s')"
  shows "idCounter s' = Suc (idCounter s)"
    and "map (\<lambda>p. handlerId (snd p)) (emitted s')
         = map (\<lambda>p. handlerId (snd p)) (emitted s) @ [show_int (now s) @ ''-'' @ show_nat (Suc (idCounter s))]"
  using assms
  by (auto simp: addRoute_def getUniqueId_def Let_def split: if_splits option.splits)

lemma route2_Inl:
  assumes "route2 V B m h a s = (Inl e, s')"
  shows "s' = s \<or> s' = s\<lparr>idCounter := Suc (idCounter s)\<rparr>"
  using assms
  by (auto simp: route2_def Let_def split: if_splits option.splits prod.splits dest!: addRoute_Inl)

lemma route2_Inr:
  assumes "route2 V B m h a s = (Inr u, s')"
  shows "idCounter s' = Suc (idCounter s)"
    and "map (\<lambda>p. handlerId (snd p)) (emitted s')
         = map (\<lambda>p. handlerId (snd p)) (emitted s) @ [show_int (now s) @ ''-'' @ show_nat (Suc (idCounter s))]"
  using assms
  by (auto simp: route2_def Let_def split: if_splits option.splits prod.splits dest: addRoute_Inr)

section \<open>Handler ids are unique\<close>

lemma ids_bound_mono:
  assumes "\<forall>i \<in> S. \<exists>t n. i = t @ CHR ''-'' # show_nat n \<and> n \<le> c" "c \<le> c'"
  shows "\<forall>i \<in> S. \<exists>t n. i = t @ CHR ''-'' # show_nat n \<and> n \<le> (c'::nat)"
  using assms by (meson le_trans)

lemma step_ids:
  assumes "distinct (map (\<lambda>p. handlerId (snd p)) (emitted s))"
    and "\<forall>i \<in> set (map (\<lambda>p. handlerId (snd p)) (emitted s)). \<exists>t n. i = t @ CHR ''-'' # show_nat n \<and> n \<le> idCounter s"
  shows "distinct (map (\<lambda>p. handlerId (snd p)) (emitted (step V B ev s)))
       \<and> (\<forall>i \<in> set (map (\<lambda>p. handlerId (snd p)) (emitted (step V B ev s))).
             \<exists>t n. i = t @ CHR ''-'' # show_nat n \<and> n \<le> idCounter (step V B ev s))"
proof (cases ev)
  case (Register m h a)
  obtain r s' where r: "route2 V B m h a s = (r, s')" by (cases "route2 V B m h a s")
  show ?thesis
  proof (cases r)
    case (Inl e)
    with r route2_Inl[of V B m h a s e s'] have "s' = s \<or> s' = s\<lparr>idCounter := Suc (idCounter s)\<rparr>" by simp
    then show ?thesis
    proof
      assume "s' = s"
      with assms Register r show ?thesis by simp
    next
      assume "s' = s\<lparr>idCounter := Suc (idCounter s)\<rparr>"
      with assms(1) ids_bound_mono[OF assms(2), of "Suc (idCounter s)"] Register r
      show ?thesis by simp
    qed
  next
    case (Inr u)
    let ?new = "show_int (now s) @ ''-'' @ show_nat (Suc (idCounter s))"
    from r Inr have c: "idCounter s' = Suc (idCounter s)"
      and e: "map (\<lambda>p. handlerId (snd p)) (emitted s') = map (\<lambda>p. handlerId (snd p)) (emitted s) @ [?new]"
      using route2_Inr[of V B m h a s u s'] by simp_all
    have fresh: "?new \<notin> set (map (\<lambda>p. handlerId (snd p)) (emitted s))"
    proof
      assume "?new \<in> set (map (\<lambda>p. handlerId (snd p)) (emitted s))"
      with assms(2) obtain t n where tn: "?new = t @ CHR ''-'' # show_nat n" "n \<le> idCounter s" by blast
      then have "show_nat (Suc (idCounter s)) = show_nat n"
        using suffix_after_dash[of "show_int (now s)" "show_nat (Suc (idCounter s))" t "show_nat n"]
        by (simp add: dash_notin_show_nat)
      then have "Suc (idCounter s) = n" by (rule show_nat_inj)
      with tn(2) show False by simp
    qed
    have "\<forall>i \<in> set (map (\<lambda>p. handlerId (snd p)) (emitted s) @ [?new]).
             \<exists>t n. i = t @ CHR ''-'' # show_nat n \<and> n \<le> Suc (idCounter s)"
    proof
      fix i assume "i \<in> set (map (\<lambda>p. handlerId (snd p)) (emitted s) @ [?new])"
      then consider "i \<in> set (map (\<lambda>p. handlerId (snd p)) (emitted s))" | "i = ?new" by auto
      then show "\<exists>t n. i = t @ CHR ''-'' # show_nat n \<and> n \<le> Suc (idCounter s)"
      proof cases
        case 1
        with assms(2) obtain t n where "i = t @ CHR ''-'' # show_nat n" "n \<le> idCounter s" by blast
        then show ?thesis by (intro exI[of _ t] exI[of _ n]) simp
      next
        case 2
        then show ?thesis by (intro exI[of _ "show_int (now s)"] exI[of _ "Suc (idCounter s)"]) simp
      qed
    qed
    with fresh assms(1) Register r c e show ?thesis by simp
  qed
next
  case (ClockReads t)
  with assms show ?thesis by simp
next
  case (AliasSet al)
  with assms show ?thesis by simp
next
  case UniqueIdTaken
  with assms(1) ids_bound_mono[OF assms(2), of "Suc (idCounter s)"] show ?thesis by simp
qed

lemma run_ids:
  assumes "distinct (map (\<lambda>p. handlerId (snd p)) (emitted s))"
    and "\<forall>i \<in> set (map (\<lambda>p. handlerId (snd p)) (emitted s)). \<exists>t n. i = t @ CHR ''-'' # show_nat n \<and> n \<le> idCounter s"
  shows "distinct (map (\<lambda>p. handlerId (snd p)) (emitted (run V B evs s)))"
  using assms
proof (induction evs arbitrary: s)
  case Nil
  then show ?case by (simp add: run_def)
next
  case (Cons ev evs)
  from step_ids[OF Cons.prems, of V B ev]
  have "distinct (map (\<lambda>p. handlerId (snd p)) (emitted (run V B evs (step V B ev s))))"
    by (intro Cons.IH) blast+
  then show ?case by (simp add: run_def)
qed

text \<open>
  C8. In any run of one process that starts with nothing emitted (registrations,
  successful or not, in any number, the clock showing any times, equal ones included,
  and other code drawing from the same counter), the handler ids of the
  \<^verbatim>\<open>route:added\<close> frames are pairwise distinct: each successful registration gets an
  id that no other registration has.
\<close>

theorem handlerIds_distinct:
  assumes "emitted s = []"
  shows "distinct (map (\<lambda>p. handlerId (snd p)) (emitted (run V B evs s)))"
  using assms by (intro run_ids) simp_all

theorem handlerIds_distinct_witness:
  "emitted fresh_state = []
   \<and> map (\<lambda>p. handlerId (snd p))
         (emitted (run validateStaticResponse getBackendStaticResponse
            [Register (JStr ''/a'') JUndefined JUndefined,
             Register (JStr ''/b'') (JNum 42) JUndefined,
             Register (JStr ''/c'') (JStr ''hello'') JUndefined] fresh_state))
       = [''1600000000000-1'', ''1600000000000-3'']
   \<and> distinct (map (\<lambda>p. handlerId (snd p))
         (emitted (run validateStaticResponse getBackendStaticResponse
            [Register (JStr ''/a'') JUndefined JUndefined,
             Register (JStr ''/b'') (JNum 42) JUndefined,
             Register (JStr ''/c'') (JStr ''hello'') JUndefined] fresh_state)))"
proof -
  have e: "emitted fresh_state = []" by (simp add: fresh_state_def)
  have "map (\<lambda>p. handlerId (snd p))
         (emitted (run validateStaticResponse getBackendStaticResponse
            [Register (JStr ''/a'') JUndefined JUndefined,
             Register (JStr ''/b'') (JNum 42) JUndefined,
             Register (JStr ''/c'') (JStr ''hello'') JUndefined] fresh_state))
       = [''1600000000000-1'', ''1600000000000-3'']"
    by (simp add: eval_defs)
  with e handlerIds_distinct[OF e, of validateStaticResponse getBackendStaticResponse
      "[Register (JStr ''/a'') JUndefined JUndefined,
        Register (JStr ''/b'') (JNum 42) JUndefined,
        Register (JStr ''/c'') (JStr ''hello'') JUndefined]"]
  show ?thesis by simp
qed

section \<open>Failure leaves no route behind\<close>

text \<open>
  C3. Whenever a registration fails (with a malformed matcher, an invalid handler, a
  rejected static response or any other error), the route table is the one before
  the call and no \<^verbatim>\<open>route:added\<close> frame has been emitted.
\<close>

theorem registration_atomic_on_failure:
  assumes "route2 V B matcher hdl arg2 s = (Inl e, s')"
  shows "routes s' = routes s \<and> emitted s' = emitted s"
  using route2_Inl[OF assms] by auto

theorem registration_atomic_on_failure_witness:
  "fst (route2 validateStaticResponse getBackendStaticResponse (JStr ''/users'')
          (JObj [(''body'', JStr ''x''), (''destroySocket'', JBool True)]) JUndefined fresh_state)
     = Inl (InvalidStaticResponse
              ''`destroySocket`, if passed, must be the only option in the StaticResponse.''
              (JObj [(''body'', JStr ''x''), (''destroySocket'', JBool True)]))
   \<and> routes (snd (route2 validateStaticResponse getBackendStaticResponse (JStr ''/users'')
          (JObj [(''body'', JStr ''x''), (''destroySocket'', JBool True)]) JUndefined fresh_state))
     = routes fresh_state
   \<and> emitted (snd (route2 validateStaticResponse getBackendStaticResponse (JStr ''/users'')
          (JObj [(''body'', JStr ''x''), (''destroySocket'', JBool True)]) JUndefined fresh_state))
     = emitted fresh_state"
proof -
  let ?r = "route2 validateStaticResponse getBackendStaticResponse (JStr ''/users'')
          (JObj [(''body'', JStr ''x''), (''destroySocket'', JBool True)]) JUndefined fresh_state"
  let ?e = "InvalidStaticResponse
              ''`destroySocket`, if passed, must be the only option in the StaticResponse.''
              (JObj [(''body'', JStr ''x''), (''destroySocket'', JBool True)])"
  have f: "fst ?r = Inl ?e" by (simp add: eval_defs)
  then have "?r = (Inl ?e, snd ?r)" by (metis prod.collapse)
  from registration_atomic_on_failure[OF this] f show ?thesis by simp
qed

section \<open>What runs before what\<close>

text \<open>
  C2, as the code has it. The matcher is validated before anything else happens: when
  validation fails the state is untouched (no id taken from the counter, no route
  stored, no frame emitted). The handler is classified, and a static response
  validated, before a route is stored or a frame emitted, but after the handler id has
  been generated: when the handler is rejected the counter behind \<^verbatim>\<open>_.uniqueId()\<close> has
  been advanced by one and nothing else has changed.
\<close>

theorem validation_precedes_side_effects:
  "(route2 V B matcher hdl arg2 s = (Inl (InvalidRouteMatcher msg opts), s') \<longrightarrow> s' = s)
   \<and> (route2 V B matcher hdl arg2 s = (Inl (InvalidHandler h), s')
        \<longrightarrow> s' = s\<lparr>idCounter := Suc (idCounter s)\<rparr>)
   \<and> (route2 V B matcher hdl arg2 s = (Inl (InvalidStaticResponse msg h), s')
        \<longrightarrow> s' = s\<lparr>idCounter := Suc (idCounter s)\<rparr>)"
proof (intro conjI impI)
  assume "route2 V B matcher hdl arg2 s = (Inl (InvalidRouteMatcher msg opts), s')"
  then show "s' = s"
    by (auto simp: route2_def Let_def split: if_splits option.splits prod.splits
             dest!: addRoute_Inl_kind)
next
  assume "route2 V B matcher hdl arg2 s = (Inl (InvalidHandler h), s')"
  then show "s' = s\<lparr>idCounter := Suc (idCounter s)\<rparr>"
    by (auto simp: route2_def Let_def split: if_splits option.splits prod.splits
             dest!: addRoute_Inl)
next
  assume "route2 V B matcher hdl arg2 s = (Inl (InvalidStaticResponse msg h), s')"
  then show "s' = s\<lparr>idCounter := Suc (idCounter s)\<rparr>"
    by (auto simp: route2_def Let_def split: if_splits option.splits prod.splits
             dest!: addRoute_Inl)
qed

theorem validation_precedes_side_effects_witness:
  "fst (route2 validateStaticResponse getBackendStaticResponse (JObj []) JUndefined JUndefined
          fresh_state)
     = Inl (InvalidRouteMatcher
              ''The RouteMatcher does not contain any keys. You must pass something to match on.''
              (JObj []))
   \<and> snd (route2 validateStaticResponse getBackendStaticResponse (JObj []) JUndefined JUndefined
            fresh_state) = fresh_state
   \<and> fst (route2 validateStaticResponse getBackendStaticResponse (JStr ''/users'')
            (JBool True) JUndefined fresh_state) = Inl (InvalidHandler (JBool True))
   \<and> snd (route2 validateStaticResponse getBackendStaticResponse (JStr ''/users'')
            (JBool True) JUndefined fresh_state)
     = fresh_state\<lparr>idCounter := Suc (idCounter fresh_state)\<rparr>
   \<and> fst (route2 validateStaticResponse getBackendStaticResponse (JStr ''/users'')
            (JObj [(''statusCode'', JNum 200), (''destroySocket'', JBool True)]) JUndefined
            fresh_state)
     = Inl (InvalidStaticResponse
              ''`destroySocket`, if passed, must be the only option in the StaticResponse.''
              (JObj [(''statusCode'', JNum 200), (''destroySocket'', JBool True)]))
   \<and> snd (route2 validateStaticResponse getBackendStaticResponse (JStr ''/users'')
            (JObj [(''statusCode'', JNum 200), (''destroySocket'', JBool True)]) JUndefined
            fresh_state)
     = fresh_state\<lparr>idCounter := Suc (idCounter fresh_state)\<rparr>"
proof -
  let ?r1 = "route2 validateStaticResponse getBackendStaticResponse (JObj []) JUndefined
               JUndefined fresh_state"
  let ?e1 = "InvalidRouteMatcher
              ''The RouteMatcher does not contain any keys. You must pass something to match on.''
              (JObj [])"
  let ?r2 = "route2 validateStaticResponse getBackendStaticResponse (JStr ''/users'')
               (JBool True) JUndefined fresh_state"
  let ?r3 = "route2 validateStaticResponse getBackendStaticResponse (JStr ''/users'')
               (JObj [(''statusCode'', JNum 200), (''destroySocket'', JBool True)]) JUndefined
               fresh_state"
  let ?e3 = "InvalidStaticResponse
              ''`destroySocket`, if passed, must be the only option in the StaticResponse.''
              (JObj [(''statusCode'', JNum 200), (''destroySocket'', JBool True)])"
  have f1: "fst ?r1 = Inl ?e1" by (simp add: eval_defs)
  then have p1: "?r1 = (Inl ?e1, snd ?r1)" by (metis prod.collapse)
  have f2: "fst ?r2 = Inl (InvalidHandler (JBool True))" by (simp add: eval_defs)
  then have p2: "?r2 = (Inl (InvalidHandler (JBool True)), snd ?r2)" by (metis prod.collapse)
  have f3: "fst ?r3 = Inl ?e3" by (simp add: eval_defs)
  then have p3: "?r3 = (Inl ?e3, snd ?r3)" by (metis prod.collapse)
  from validation_precedes_side_effects[of validateStaticResponse getBackendStaticResponse
         "JObj []" JUndefined JUndefined fresh_state _ "JObj []" "snd ?r1"] p1
  have "snd ?r1 = fresh_state" by blast
  moreover
  from validation_precedes_side_effects[of validateStaticResponse getBackendStaticResponse
         "JStr ''/users''" "JBool True" JUndefined fresh_state _ _ "snd ?r2" "JBool True"] p2
  have "snd ?r2 = fresh_state\<lparr>idCounter := Suc (idCounter fresh_state)\<rparr>" by blast
  moreover
  from validation_precedes_side_effects[of validateStaticResponse getBackendStaticResponse
         "JStr ''/users''" "JObj [(''statusCode'', JNum 200), (''destroySocket'', JBool True)]"
         JUndefined fresh_state
         "''`destroySocket`, if passed, must be the only option in the StaticResponse.''" _
         "snd ?r3" "JObj [(''statusCode'', JNum 200), (''destroySocket'', JBool True)]"] p3
  have "snd ?r3 = fresh_state\<lparr>idCounter := Suc (idCounter fresh_state)\<rparr>" by blast
  ultimately show ?thesis using f1 f2 f3 by simp
qed

text \<open>
  C2 as stated fails: registering the url \<^verbatim>\<open>'/users'\<close> with the handler \<^verbatim>\<open>42\<close> is
  rejected as an invalid handler, and the unique-id counter has been advanced all the
  same.
\<close>

theorem id_generated_before_handler_classified:
  "fst (route2 validateStaticResponse getBackendStaticResponse (JStr ''/users'') (JNum 42)
          JUndefined fresh_state) = Inl (InvalidHandler (JNum 42))
   \<and> idCounter (snd (route2 validateStaticResponse getBackendStaticResponse (JStr ''/users'')
          (JNum 42) JUndefined fresh_state)) \<noteq> idCounter fresh_state"
  by (simp add: eval_defs)

section \<open>Handlers\<close>

lemma addRoute_string:
  "addRoute V B matcher (JStr b) s =
     (Inr (),
      s\<lparr> idCounter := Suc (idCounter s),
         routes := (routes s)(fst (getUniqueId s) \<mapsto>
           \<lparr> log = getNewRouteLog matcher (b \<noteq> []) (nextAlias s) (JObj [(''body'', JStr b)]),
             options = matcher, handler = JStr b, hitCount = 0, requests = [],
             route_alias = (case nextAlias s of Some a \<Rightarrow> if a \<noteq> [] then Some a else None
                            | None \<Rightarrow> None) \<rparr>),
         emitted := emitted s @
           [(''route:added'',
             \<lparr> handlerId = fst (getUniqueId s),
               routeMatcher = annotateMatcherOptionsTypes matcher,
               staticResponse = Some (B (JObj [(''body'', JStr b)])) \<rparr>)] \<rparr>)"
  by (simp add: addRoute_def getUniqueId_def Let_def isHttpRequestInterceptor_def
        lodash_isUndefined_def lodash_isString_def)

text \<open>
  C7. For every string handler \<open>b\<close> the registration succeeds; the static response is
  \<^verbatim>\<open>{body: b}\<close>: it is what is handed to \<^verbatim>\<open>getBackendStaticResponse\<close> for the frame, the
  route log shows the status 200, and the normalised response has the body \<open>b\<close> and
  the status code 200.
\<close>

theorem string_handler_static_response:
  "fst (addRoute V B matcher (JStr b) s) = Inr ()
   \<and> map (\<lambda>p. staticResponse (snd p)) (emitted (snd (addRoute V B matcher (JStr b) s)))
     = map (\<lambda>p. staticResponse (snd p)) (emitted s) @ [Some (B (JObj [(''body'', JStr b)]))]
   \<and> map_option handler (routes (snd (addRoute V B matcher (JStr b) s)) (fst (getUniqueId s)))
     = Some (JStr b)
   \<and> map_option (\<lambda>e. log_status (log e))
        (routes (snd (addRoute V B matcher (JStr b) s)) (fst (getUniqueId s)))
     = Some (Some (JNum 200))
   \<and> getProp (getBackendStaticResponse (JObj [(''body'', JStr b)])) ''body'' = JStr b
   \<and> getProp (getBackendStaticResponse (JObj [(''body'', JStr b)])) ''statusCode'' = JNum 200"
  by (simp add: addRoute_string getNewRouteLog_def getBackendStaticResponse_def Let_def)

lemma addRoute_object:
  assumes "hdl = JObj kvs"
    and "w = (if length (lodash_intersection (lodash_keys hdl) STATIC_RESPONSE_KEYS) = 0
                 \<and> \<not> lodash_isEmpty hdl
              then JObj [(''body'', (case JSON_stringify hdl of Some t \<Rightarrow> JStr t
                                     | None \<Rightarrow> JUndefined)),
                         (''headers'', JObj [(''content-type'', JStr ''application/json'')])]
              else hdl)"
  shows "addRoute V B matcher hdl s =
     (case V w of
        Some err \<Rightarrow> (Inl (InvalidStaticResponse err w), s\<lparr>idCounter := Suc (idCounter s)\<rparr>)
      | None \<Rightarrow>
         (Inr (),
          s\<lparr> idCounter := Suc (idCounter s),
             routes := (routes s)(fst (getUniqueId s) \<mapsto>
               \<lparr> log = getNewRouteLog matcher True (nextAlias s) w,
                 options = matcher, handler = w, hitCount = 0, requests = [],
                 route_alias = (case nextAlias s of Some a \<Rightarrow> if a \<noteq> [] then Some a else None
                                | None \<Rightarrow> None) \<rparr>),
             emitted := emitted s @
               [(''route:added'',
                 \<lparr> handlerId = fst (getUniqueId s),
                   routeMatcher = annotateMatcherOptionsTypes matcher,
                   staticResponse = Some (B w) \<rparr>)] \<rparr>))"
  using assms
  by (auto simp: addRoute_def getUniqueId_def Let_def isHttpRequestInterceptor_def
        lodash_isUndefined_def lodash_isString_def lodash_isObjectLike_def
        split: option.splits)

lemma intersection_Nil:
  "(lodash_intersection xs ys = []) = (set xs \<inter> set ys = {})"
  by (auto simp: lodash_intersection_def filter_empty_conv)

text \<open>
  C10. The handler \<^verbatim>\<open>{}\<close> is not wrapped as a JSON body: \<^verbatim>\<open>validateStaticResponse\<close> is
  applied to \<^verbatim>\<open>{}\<close> itself. When it accepts, the static response of the route is \<^verbatim>\<open>{}\<close>
  (handed as it is to \<^verbatim>\<open>getBackendStaticResponse\<close>); when it rejects, the error names
  \<^verbatim>\<open>{}\<close> as the static response.
\<close>

theorem empty_object_handler_not_wrapped:
  "(V (JObj []) = None \<longrightarrow>
      fst (addRoute V B matcher (JObj []) s) = Inr ()
      \<and> map (\<lambda>p. staticResponse (snd p)) (emitted (snd (addRoute V B matcher (JObj []) s)))
        = map (\<lambda>p. staticResponse (snd p)) (emitted s) @ [Some (B (JObj []))]
      \<and> map_option handler (routes (snd (addRoute V B matcher (JObj []) s)) (fst (getUniqueId s)))
        = Some (JObj []))
   \<and> (V (JObj []) = Some err \<longrightarrow>
        fst (addRoute V B matcher (JObj []) s) = Inl (InvalidStaticResponse err (JObj [])))"
  by (simp add: addRoute_object[where kvs = "[]" and w = "JObj []"] lodash_isEmpty_def)

theorem empty_object_handler_not_wrapped_witness:
  "validateStaticResponse (JObj []) = None
   \<and> fst (addRoute validateStaticResponse getBackendStaticResponse (JObj [(''url'', JStr ''/users'')])
           (JObj []) fresh_state) = Inr ()
   \<and> map (\<lambda>p. staticResponse (snd p))
        (emitted (snd (addRoute validateStaticResponse getBackendStaticResponse
           (JObj [(''url'', JStr ''/users'')]) (JObj []) fresh_state)))
     = [Some (getBackendStaticResponse (JObj []))]
   \<and> (\<lambda>x. if x = JObj [] then Some ''rejected'' else None) (JObj []) = Some ''rejected''
   \<and> fst (addRoute (\<lambda>x. if x = JObj [] then Some ''rejected'' else None) getBackendStaticResponse
           (JObj [(''url'', JStr ''/users'')]) (JObj []) fresh_state)
     = Inl (InvalidStaticResponse ''rejected'' (JObj []))"
proof -
  have v: "validateStaticResponse (JObj []) = None" by (simp add: validateStaticResponse_def)
  have e: "emitted fresh_state = []" by (simp add: fresh_state_def)
  have r: "(\<lambda>x. if x = JObj [] then Some ''rejected'' else None) (JObj []) = Some ''rejected''"
    by simp
  from empty_object_handler_not_wrapped[where V = validateStaticResponse
         and B = getBackendStaticResponse and matcher = "JObj [(''url'', JStr ''/users'')]"
         and s = fresh_state] v e
       empty_object_handler_not_wrapped[where
         V = "\<lambda>x. if x = JObj [] then Some ''rejected'' else None" and err = "''rejected''"
         and B = getBackendStaticResponse and matcher = "JObj [(''url'', JStr ''/users'')]"
         and s = fresh_state] r
  show ?thesis by simp
qed

text \<open>
  C6. A handler that is a non-empty mapping with none of the static-response keys is
  replaced by \<^verbatim>\<open>{body: JSON.stringify(handler), headers: {'content-type':
  'application/json'}}\<close>: this is the static response of the route whenever
  \<^verbatim>\<open>validateStaticResponse\<close> accepts it (the validator of the spec always does), and the
  normalised response keeps that body and that header. A mapping that has one of the
  static-response keys is validated and used as the static response as it is.
\<close>

theorem mapping_handler_json_wrapped:
  "(kvs \<noteq> [] \<and> set (map fst kvs) \<inter> set STATIC_RESPONSE_KEYS = {} \<longrightarrow>
      JSON_stringify (JObj kvs) \<noteq> None
      \<and> validateStaticResponse
          (JObj [(''body'', JStr (the (JSON_stringify (JObj kvs)))),
                 (''headers'', JObj [(''content-type'', JStr ''application/json'')])]) = None
      \<and> getProp (getBackendStaticResponse
          (JObj [(''body'', JStr (the (JSON_stringify (JObj kvs)))),
                 (''headers'', JObj [(''content-type'', JStr ''application/json'')])])) ''body''
        = JStr (the (JSON_stringify (JObj kvs)))
      \<and> getProp (getProp (getBackendStaticResponse
          (JObj [(''body'', JStr (the (JSON_stringify (JObj kvs)))),
                 (''headers'', JObj [(''content-type'', JStr ''application/json'')])])) ''headers'')
          ''content-type''
        = JStr ''application/json''
      \<and> (V (JObj [(''body'', JStr (the (JSON_stringify (JObj kvs)))),
                   (''headers'', JObj [(''content-type'', JStr ''application/json'')])]) = None \<longrightarrow>
           fst (addRoute V B matcher (JObj kvs) s) = Inr ()
           \<and> map (\<lambda>p. staticResponse (snd p)) (emitted (snd (addRoute V B matcher (JObj kvs) s)))
             = map (\<lambda>p. staticResponse (snd p)) (emitted s) @
               [Some (B (JObj [(''body'', JStr (the (JSON_stringify (JObj kvs)))),
                      (''headers'', JObj [(''content-type'', JStr ''application/json'')])]))]
           \<and> map_option handler
               (routes (snd (addRoute V B matcher (JObj kvs) s)) (fst (getUniqueId s)))
             = Some (JObj [(''body'', JStr (the (JSON_stringify (JObj kvs)))),
                      (''headers'', JObj [(''content-type'', JStr ''application/json'')])])))
   \<and> (set (map fst kvs) \<inter> set STATIC_RESPONSE_KEYS \<noteq> {} \<and> V (JObj kvs) = None \<longrightarrow>
        fst (addRoute V B matcher (JObj kvs) s) = Inr ()
        \<and> map (\<lambda>p. staticResponse (snd p)) (emitted (snd (addRoute V B matcher (JObj kvs) s)))
          = map (\<lambda>p. staticResponse (snd p)) (emitted s) @ [Some (B (JObj kvs))]
        \<and> map_option handler
            (routes (snd (addRoute V B matcher (JObj kvs) s)) (fst (getUniqueId s)))
          = Some (JObj kvs))"
proof (intro conjI impI)
  assume a: "set (map fst kvs) \<inter> set STATIC_RESPONSE_KEYS \<noteq> {} \<and> V (JObj kvs) = None"
  then have w: "JObj kvs = (if length (lodash_intersection (lodash_keys (JObj kvs)) STATIC_RESPONSE_KEYS) = 0
                 \<and> \<not> lodash_isEmpty (JObj kvs)
              then JObj [(''body'', (case JSON_stringify (JObj kvs) of Some t \<Rightarrow> JStr t
                                     | None \<Rightarrow> JUndefined)),
                         (''headers'', JObj [(''content-type'', JStr ''application/json'')])]
              else JObj kvs)"
    by (simp add: intersection_Nil lodash_keys_def)
  from a show "fst (addRoute V B matcher (JObj kvs) s) = Inr ()"
    and "map (\<lambda>p. staticResponse (snd p)) (emitted (snd (addRoute V B matcher (JObj kvs) s)))
          = map (\<lambda>p. staticResponse (snd p)) (emitted s) @ [Some (B (JObj kvs))]"
    and "map_option handler
            (routes (snd (addRoute V B matcher (JObj kvs) s)) (fst (getUniqueId s)))
          = Some (JObj kvs)"
    by (simp_all add: addRoute_object[OF refl w])
next
  assume a: "kvs \<noteq> [] \<and> set (map fst kvs) \<inter> set STATIC_RESPONSE_KEYS = {}"
  let ?w = "JObj [(''body'', JStr (the (JSON_stringify (JObj kvs)))),
                 (''headers'', JObj [(''content-type'', JStr ''application/json'')])]"
  show "JSON_stringify (JObj kvs) \<noteq> None" by simp
  show "validateStaticResponse ?w = None" by (simp add: validateStaticResponse_def)
  show "getProp (getBackendStaticResponse ?w) ''body'' = JStr (the (JSON_stringify (JObj kvs)))"
    by (simp add: getBackendStaticResponse_def)
  show "getProp (getProp (getBackendStaticResponse ?w) ''headers'') ''content-type''
        = JStr ''application/json''"
    by (simp add: getBackendStaticResponse_def)
  from a have w: "?w = (if length (lodash_intersection (lodash_keys (JObj kvs)) STATIC_RESPONSE_KEYS) = 0
                 \<and> \<not> lodash_isEmpty (JObj kvs)
              then JObj [(''body'', (case JSON_stringify (JObj kvs) of Some t \<Rightarrow> JStr t
                                     | None \<Rightarrow> JUndefined)),
                         (''headers'', JObj [(''content-type'', JStr ''application/json'')])]
              else JObj kvs)"
    by (simp add: intersection_Nil lodash_keys_def lodash_isEmpty_def)
  assume v: "V ?w = None"
  then show "fst (addRoute V B matcher (JObj kvs) s) = Inr ()"
    and "map (\<lambda>p. staticResponse (snd p)) (emitted (snd (addRoute V B matcher (JObj kvs) s)))
             = map (\<lambda>p. staticResponse (snd p)) (emitted s) @ [Some (B ?w)]"
    and "map_option handler
               (routes (snd (addRoute V B matcher (JObj kvs) s)) (fst (getUniqueId s)))
             = Some ?w"
    by (simp_all add: addRoute_object[OF refl w])
qed

theorem mapping_handler_json_wrapped_witness:
  "[(''id'', JNum 1), (''name'', JStr ''foo'')] \<noteq> []
   \<and> set (map fst [(''id'', JNum 1), (''name'', JStr ''foo'')]) \<inter> set STATIC_RESPONSE_KEYS = {}
   \<and> JSON_stringify (JObj [(''id'', JNum 1), (''name'', JStr ''foo'')])
     = Some (''{'' @ [CHR 0x22] @ ''id'' @ [CHR 0x22] @ '':1,'' @ [CHR 0x22] @ ''name''
             @ [CHR 0x22] @ '':'' @ [CHR 0x22] @ ''foo'' @ [CHR 0x22] @ ''}'')
   \<and> map (\<lambda>p. staticResponse (snd p))
        (emitted (snd (addRoute validateStaticResponse getBackendStaticResponse
           (JObj [(''url'', JStr ''/users'')])
           (JObj [(''id'', JNum 1), (''name'', JStr ''foo'')]) fresh_state)))
     = [Some (JObj [(''body'', JStr (''{'' @ [CHR 0x22] @ ''id'' @ [CHR 0x22] @ '':1,'' @ [CHR 0x22]
                       @ ''name'' @ [CHR 0x22] @ '':'' @ [CHR 0x22] @ ''foo'' @ [CHR 0x22] @ ''}'')),
                    (''headers'', JObj [(''content-type'', JStr ''application/json'')]),
                    (''statusCode'', JNum 200)])]
   \<and> set (map fst [(''body'', JStr ''x''), (''statusCode'', JNum 404)]) \<inter> set STATIC_RESPONSE_KEYS
     \<noteq> {}
   \<and> validateStaticResponse (JObj [(''body'', JStr ''x''), (''statusCode'', JNum 404)]) = None
   \<and> map_option handler
        (routes (snd (addRoute validateStaticResponse getBackendStaticResponse
           (JObj [(''url'', JStr ''/users'')])
           (JObj [(''body'', JStr ''x''), (''statusCode'', JNum 404)]) fresh_state))
           (fst (getUniqueId fresh_state)))
     = Some (JObj [(''body'', JStr ''x''), (''statusCode'', JNum 404)])"
  using mapping_handler_json_wrapped[where kvs = "[(''id'', JNum 1), (''name'', JStr ''foo'')]"
          and V = validateStaticResponse and B = getBackendStaticResponse
          and matcher = "JObj [(''url'', JStr ''/users'')]" and s = fresh_state]
        mapping_handler_json_wrapped[where
          kvs = "[(''body'', JStr ''x''), (''statusCode'', JNum 404)]"
          and V = validateStaticResponse and B = getBackendStaticResponse
          and matcher = "JObj [(''url'', JStr ''/users'')]" and s = fresh_state]
  by (simp add: STATIC_RESPONSE_KEYS_def validateStaticResponse_def getBackendStaticResponse_def
        fresh_state_def join_with_def json_quote_def json_escape_def show_int_def show_nat.simps
        digit_char_def)

section \<open>The shorthand forms of a registration\<close>

lemma addRoute_undefined:
  "addRoute V B matcher JUndefined s =
     (Inr (),
      s\<lparr> idCounter := Suc (idCounter s),
         routes := (routes s)(fst (getUniqueId s) \<mapsto>
           \<lparr> log = getNewRouteLog matcher False (nextAlias s) JUndefined,
             options = matcher, handler = JUndefined, hitCount = 0, requests = [],
             route_alias = (case nextAlias s of Some a \<Rightarrow> if a \<noteq> [] then Some a else None
                            | None \<Rightarrow> None) \<rparr>),
         emitted := emitted s @
           [(''route:added'',
             \<lparr> handlerId = fst (getUniqueId s),
               routeMatcher = annotateMatcherOptionsTypes matcher,
               staticResponse = None \<rparr>)] \<rparr>)"
  by (simp add: addRoute_def getUniqueId_def Let_def isHttpRequestInterceptor_def
        lodash_isUndefined_def)

text \<open>
  C1, as the code has it. A string or pattern \<open>u\<close> in first place gives the matcher
  \<^verbatim>\<open>{url: u}\<close>, with the second argument as the handler, unless the call has the
  \<^verbatim>\<open>(method, url, handler)\<close> form: a string, a string or pattern and a truthy third
  argument, which give \<^verbatim>\<open>{method: m, url: u}\<close> with the third argument as the handler.
  So two strings alone are a url and a handler, not a method and a url. Any other
  first argument is used as the matcher itself. A registration without a handler
  stores the route with no handler, marks it as not stubbed (\<^verbatim>\<open>< passthrough >\<close>) and
  sends a frame without a static response.
\<close>

theorem matcher_shorthand_forms:
  "(isStringMatcher u \<and> \<not> (lodash_isString u \<and> isStringMatcher hdl \<and> truthy third) \<longrightarrow>
      getMatcherOptions u hdl third = (JObj [(''url'', u)], hdl))
   \<and> (isStringMatcher u \<and> truthy third \<longrightarrow>
        getMatcherOptions (JStr m) u third = (JObj [(''method'', JStr m), (''url'', u)], third))
   \<and> (\<not> isStringMatcher matcher \<longrightarrow> getMatcherOptions matcher hdl third = (matcher, hdl))
   \<and> fst (addRoute V B opts JUndefined s) = Inr ()
   \<and> map (\<lambda>p. staticResponse (snd p)) (emitted (snd (addRoute V B opts JUndefined s)))
     = map (\<lambda>p. staticResponse (snd p)) (emitted s) @ [None]
   \<and> map_option (\<lambda>e. (handler e, log_isStubbed (log e), log_response (log e)))
        (routes (snd (addRoute V B opts JUndefined s)) (fst (getUniqueId s)))
     = Some (JUndefined, False, JStr ''< passthrough >'')"
  by (auto simp: getMatcherOptions_def addRoute_undefined getNewRouteLog_def Let_def
        lodash_isString_def isStringMatcher_def)

theorem matcher_shorthand_forms_witness:
  "isStringMatcher (JRegExp ''/users/i'')
   \<and> getMatcherOptions (JRegExp ''/users/i'') JUndefined JUndefined
     = (JObj [(''url'', JRegExp ''/users/i'')], JUndefined)
   \<and> isStringMatcher (JStr ''GET'')
   \<and> \<not> (lodash_isString (JStr ''GET'') \<and> isStringMatcher (JStr ''/users'') \<and> truthy JUndefined)
   \<and> getMatcherOptions (JStr ''GET'') (JStr ''/users'') JUndefined
     = (JObj [(''url'', JStr ''GET'')], JStr ''/users'')
   \<and> isStringMatcher (JStr ''/users'') \<and> truthy (JFunc ''(req) => {}'')
   \<and> getMatcherOptions (JStr ''GET'') (JStr ''/users'') (JFunc ''(req) => {}'')
     = (JObj [(''method'', JStr ''GET''), (''url'', JStr ''/users'')], JFunc ''(req) => {}'')
   \<and> \<not> isStringMatcher (JObj [(''method'', JStr ''GET''), (''port'', JNum 80)])
   \<and> getMatcherOptions (JObj [(''method'', JStr ''GET''), (''port'', JNum 80)]) JUndefined JUndefined
     = (JObj [(''method'', JStr ''GET''), (''port'', JNum 80)], JUndefined)"
  using matcher_shorthand_forms[where u = "JRegExp ''/users/i''" and hdl = JUndefined
          and third = JUndefined]
        matcher_shorthand_forms[where u = "JStr ''GET''" and hdl = "JStr ''/users''"
          and third = JUndefined]
        matcher_shorthand_forms[where u = "JStr ''/users''" and m = "''GET''"
          and third = "JFunc ''(req) => {}''"]
        matcher_shorthand_forms[where matcher = "JObj [(''method'', JStr ''GET''), (''port'', JNum 80)]"
          and hdl = JUndefined and third = JUndefined]
  by (simp add: isStringMatcher_def isRegExp_def lodash_isString_def)

text \<open>
  C1 as stated fails for two strings: \<^verbatim>\<open>route2('GET', '/users')\<close> does not build the
  matcher \<^verbatim>\<open>{method: 'GET', url: '/users'}\<close>. It registers the url \<^verbatim>\<open>'GET'\<close> with
  \<^verbatim>\<open>'/users'\<close> as the body of a static response.
\<close>

theorem two_strings_are_url_and_body:
  "fst (getMatcherOptions (JStr ''GET'') (JStr ''/users'') JUndefined)
     \<noteq> JObj [(''method'', JStr ''GET''), (''url'', JStr ''/users'')]
   \<and> map (\<lambda>p. (routeMatcher (snd p), staticResponse (snd p)))
        (emitted (snd (route2 validateStaticResponse getBackendStaticResponse
           (JStr ''GET'') (JStr ''/users'') JUndefined fresh_state)))
     = [(JObj [(''url'', JObj [(''type'', JStr ''glob''), (''value'', JStr ''GET'')])],
         Some (JObj [(''body'', JStr ''/users''), (''statusCode'', JNum 200),
                     (''headers'', JObj [])]))]"
  by (simp add: eval_defs)

section \<open>Paths into a plain matcher\<close>

lemma stringToPath_not_Nil: "stringToPath s \<noteq> []"
  by (induction s) (auto split: list.splits)

lemma stringToPath_plain: "CHR ''.'' \<notin> set b \<Longrightarrow> stringToPath b = [b]"
  by (induction b) auto

lemma stringToPath_nested:
  "CHR ''.'' \<notin> set a \<Longrightarrow> CHR ''.'' \<notin> set b \<Longrightarrow> stringToPath (a @ CHR ''.'' # b) = [a, b]"
  by (induction a) (auto simp: stringToPath_plain)

lemma castPath_top: "CHR ''.'' \<notin> set f \<Longrightarrow> castPath f obj = [f]"
  by (simp add: castPath_def isKey_def)

lemma castPath_nested:
  assumes "CHR ''.'' \<notin> set d" "CHR ''.'' \<notin> set k" "\<forall>x \<in> set (map fst kvs). CHR ''.'' \<notin> set x"
  shows "castPath (d @ CHR ''.'' # k) (JObj kvs) = [d, k]"
proof -
  have "d @ CHR ''.'' # k \<notin> set (map fst kvs)"
  proof
    assume "d @ CHR ''.'' # k \<in> set (map fst kvs)"
    with assms(3) have "CHR ''.'' \<notin> set (d @ CHR ''.'' # k)" by blast
    then show False by simp
  qed
  then show ?thesis using assms(1,2) by (simp add: castPath_def isKey_def stringToPath_nested)
qed

lemma getProp_truthy_hasOwn: "truthy (getProp (JObj kvs) d) \<Longrightarrow> hasOwn (JObj kvs) d"
proof (cases "map_of kvs d")
  case None
  assume "truthy (getProp (JObj kvs) d)"
  with None show ?thesis by simp
next
  case (Some v)
  then have "(d, v) \<in> set kvs" by (rule map_of_SomeD)
  then have "d \<in> fst ` set kvs" by force
  then show ?thesis by simp
qed

lemma isStringMatcher_spec: "isStringMatcher v = isStringOrPattern v"
  by (cases v) (simp_all add: isStringMatcher_def isRegExp_def lodash_isString_def isStringOrPattern_def)

lemma list_all_isNumber:
  "list_all lodash_isNumber xs
   = list_all (\<lambda>x. case x of JNum n \<Rightarrow> True | JNaN \<Rightarrow> True | _ \<Rightarrow> False) xs"
  by (induction xs) (simp_all add: lodash_isNumber_def)

lemma isNumberMatcher_spec: "isNumberMatcher v = isNumberOrNumberList v"
  by (cases v)
     (simp_all add: isNumberMatcher_def isNumberOrNumberList_def list_all_isNumber,
      simp_all add: lodash_isNumber_def)

lemma validate_None_iff:
  "(validateRouteMatcherOptions m = None) =
     (\<not> lodash_isEmpty m
      \<and> (\<forall>p \<in> set (getAllStringMatcherFields m).
            \<not> (lodash_has m p \<and> \<not> isStringMatcher (lodash_get m p)))
      \<and> \<not> (lodash_has m ''https'' \<and> \<not> lodash_isBoolean (getProp m ''https''))
      \<and> \<not> (lodash_has m ''port'' \<and> \<not> isNumberMatcher (getProp m ''port'')))"
proof (cases "find (\<lambda>path. lodash_has m path \<and> \<not> isStringMatcher (lodash_get m path))
                (getAllStringMatcherFields m)")
  case None
  then have "\<forall>p \<in> set (getAllStringMatcherFields m).
            \<not> (lodash_has m p \<and> \<not> isStringMatcher (lodash_get m p))"
    by (simp add: find_None_iff)
  with None show ?thesis
    by (simp add: validateRouteMatcherOptions_def)
next
  case (Some q)
  then have "q \<in> set (getAllStringMatcherFields m)"
    and "lodash_has m q \<and> \<not> isStringMatcher (lodash_get m q)"
    by (auto simp: find_Some_iff)
  then have "\<not> (\<forall>p \<in> set (getAllStringMatcherFields m).
            \<not> (lodash_has m p \<and> \<not> isStringMatcher (lodash_get m p)))"
    by blast
  with Some show ?thesis
    by (simp add: validateRouteMatcherOptions_def)
qed

lemma plainMatcher_obj:
  assumes "plainMatcher m"
  obtains kvs where "m = JObj kvs" "\<forall>x \<in> set (map fst kvs). CHR ''.'' \<notin> set x"
    "plainDict (getProp m ''headers'')" "plainDict (getProp m ''query'')"
proof (cases m)
  case (JObj kvs)
  with assms have "list_all plainKey (map fst kvs)"
    and "plainDict (getProp m ''headers'')" "plainDict (getProp m ''query'')"
    by (simp_all add: plainMatcher_def DICT_STRING_MATCHER_FIELDS_def)
  moreover from this(1) have "\<forall>x \<in> set (map fst kvs). CHR ''.'' \<notin> set x"
    by (simp add: list_all_iff plainKey_def)
  ultimately show ?thesis using JObj that by blast
qed (use assms in \<open>simp_all add: plainMatcher_def\<close>)

lemma plainDict_key:
  assumes "plainDict v" "k \<in> set (lodash_keys v)"
  obtains es where "v = JObj es" "k \<in> set (map fst es)" "CHR ''.'' \<notin> set k"
    "distinct (map fst es)"
proof (cases v)
  case (JObj es)
  with assms have "k \<in> set (map fst es)" "distinct (map fst es)" "list_all plainKey (map fst es)"
    by (simp_all add: plainDict_def lodash_keys_def)
  moreover from this(1,3) have "CHR ''.'' \<notin> set k" by (auto simp: list_all_iff plainKey_def)
  ultimately show ?thesis using JObj that by blast
qed (use assms in \<open>simp_all add: plainDict_def\<close>)

lemma top_path:
  assumes "CHR ''.'' \<notin> set f"
  shows "lodash_has (JObj kvs) f = hasOwn (JObj kvs) f"
    and "lodash_get (JObj kvs) f = getProp (JObj kvs) f"
  using assms by (simp_all add: lodash_has_def lodash_get_def castPath_top)

lemma nested_path:
  assumes "plainMatcher m" "d = ''headers'' \<or> d = ''query''" "k \<in> set (lodash_keys (getProp m d))"
  shows "lodash_has m (d @ CHR ''.'' # k)"
    and "lodash_get m (d @ CHR ''.'' # k) = getProp (getProp m d) k"
    and "truthy (getProp m d)"
proof -
  from assms(1) obtain kvs where m: "m = JObj kvs"
    and top: "\<forall>x \<in> set (map fst kvs). CHR ''.'' \<notin> set x"
    and pd: "plainDict (getProp m ''headers'')" "plainDict (getProp m ''query'')"
    by (rule plainMatcher_obj)
  from pd assms(2) have "plainDict (getProp m d)" by auto
  then obtain es where es: "getProp m d = JObj es" "k \<in> set (map fst es)" "CHR ''.'' \<notin> set k"
    using assms(3) by (rule plainDict_key)
  from assms(2) have d: "CHR ''.'' \<notin> set d" by auto
  have cp: "castPath (d @ CHR ''.'' # k) m = [d, k]"
    unfolding m using d es(3) top by (rule castPath_nested)
  show t: "truthy (getProp m d)" using es(1) by simp
  then have ho: "hasOwn m d" unfolding m by (rule getProp_truthy_hasOwn)
  show "lodash_has m (d @ CHR ''.'' # k)"
    using ho es(1,2) by (simp add: lodash_has_def cp)
  have "baseGet m [d, k] = getProp (getProp m d) k"
    using es(1) by (simp add: m)
  then show "lodash_get m (d @ CHR ''.'' # k) = getProp (getProp m d) k"
    by (simp add: lodash_get_def cp)
qed

lemma paths_set:
  "set (getAllStringMatcherFields m) =
     {''method'', ''url''}
     \<union> {''headers'' @ CHR ''.'' # k | k. truthy (getProp m ''headers'')
                                      \<and> k \<in> set (lodash_keys (getProp m ''headers''))}
     \<union> {''query'' @ CHR ''.'' # k | k. truthy (getProp m ''query'')
                                    \<and> k \<in> set (lodash_keys (getProp m ''query''))}"
  apply (simp add: getAllStringMatcherFields_def STRING_MATCHER_FIELDS_def
        DICT_STRING_MATCHER_FIELDS_def Let_def)
  apply (intro conjI impI)
  apply blast+
  done

lemma paths_cases:
  assumes "p \<in> set (getAllStringMatcherFields m)"
  obtains (top) "p = ''method'' \<or> p = ''url''"
    | (nested) d k where "d = ''headers'' \<or> d = ''query''" "p = d @ CHR ''.'' # k"
        "k \<in> set (lodash_keys (getProp m d))" "truthy (getProp m d)"
  using assms unfolding paths_set by blast

lemma paths_nested:
  assumes "d = ''headers'' \<or> d = ''query''" "k \<in> set (lodash_keys (getProp m d))"
    "truthy (getProp m d)"
  shows "d @ CHR ''.'' # k \<in> set (getAllStringMatcherFields m)"
  using assms unfolding paths_set by blast

lemma string_fields_ok_iff:
  assumes "plainMatcher m"
  shows "(\<forall>p \<in> set (getAllStringMatcherFields m).
            \<not> (lodash_has m p \<and> \<not> isStringMatcher (lodash_get m p)))
       = ((\<forall>f \<in> set STRING_MATCHER_FIELDS. \<not> (hasOwn m f \<and> \<not> isStringOrPattern (getProp m f)))
          \<and> (\<forall>d \<in> set DICT_STRING_MATCHER_FIELDS. \<forall>k \<in> set (lodash_keys (getProp m d)).
                 isStringOrPattern (getProp (getProp m d) k)))"
    (is "?L = (?T \<and> ?N)")
proof -
  from assms obtain kvs where m: "m = JObj kvs" by (rule plainMatcher_obj)
  have top: "lodash_has m f = hasOwn m f" "lodash_get m f = getProp m f"
    if "f = ''method'' \<or> f = ''url''" for f
  proof -
    from that have "CHR ''.'' \<notin> set f" by auto
    then show "lodash_has m f = hasOwn m f" "lodash_get m f = getProp m f"
      unfolding m by (rule top_path)+
  qed
  show ?thesis
  proof
    assume L: ?L
    have ?T
    proof
      fix f assume "f \<in> set STRING_MATCHER_FIELDS"
      then have f: "f = ''method'' \<or> f = ''url''" by (auto simp: STRING_MATCHER_FIELDS_def)
      then have "f \<in> set (getAllStringMatcherFields m)" by (auto simp: paths_set)
      with L have "\<not> (lodash_has m f \<and> \<not> isStringMatcher (lodash_get m f))" by blast
      then show "\<not> (hasOwn m f \<and> \<not> isStringOrPattern (getProp m f))"
        by (simp add: top[OF f] isStringMatcher_spec)
    qed
    moreover have ?N
    proof (intro ballI)
      fix d k assume "d \<in> set DICT_STRING_MATCHER_FIELDS" "k \<in> set (lodash_keys (getProp m d))"
      then have d: "d = ''headers'' \<or> d = ''query''" and k: "k \<in> set (lodash_keys (getProp m d))"
        by (auto simp: DICT_STRING_MATCHER_FIELDS_def)
      note np = nested_path[OF assms d k]
      from d k np(3) have "d @ CHR ''.'' # k \<in> set (getAllStringMatcherFields m)"
        by (rule paths_nested)
      with L have "\<not> (lodash_has m (d @ CHR ''.'' # k)
                      \<and> \<not> isStringMatcher (lodash_get m (d @ CHR ''.'' # k)))" by blast
      with np(1,2) show "isStringOrPattern (getProp (getProp m d) k)"
        by (simp add: isStringMatcher_spec)
    qed
    ultimately show "?T \<and> ?N" ..
  next
    assume TN: "?T \<and> ?N"
    show ?L
    proof
      fix p assume "p \<in> set (getAllStringMatcherFields m)"
      then show "\<not> (lodash_has m p \<and> \<not> isStringMatcher (lodash_get m p))"
      proof (cases rule: paths_cases)
        case top
        then have "p \<in> set STRING_MATCHER_FIELDS" by (auto simp: STRING_MATCHER_FIELDS_def)
        with TN have "\<not> (hasOwn m p \<and> \<not> isStringOrPattern (getProp m p))" by blast
        then show ?thesis
          using top by (simp add: \<open>\<And>f. f = ''method'' \<or> f = ''url'' \<Longrightarrow> lodash_has m f = hasOwn m f\<close>
               \<open>\<And>f. f = ''method'' \<or> f = ''url'' \<Longrightarrow> lodash_get m f = getProp m f\<close> isStringMatcher_spec)
      next
        case (nested d k)
        then have "d \<in> set DICT_STRING_MATCHER_FIELDS"
          by (auto simp: DICT_STRING_MATCHER_FIELDS_def)
        with TN nested(3) have "isStringOrPattern (getProp (getProp m d) k)" by blast
        with nested_path(2)[OF assms nested(1,3)] nested(2) show ?thesis
          by (simp add: isStringMatcher_spec)
      qed
    qed
  qed
qed

lemma validation_iff_plain:
  assumes "plainMatcher m"
  shows "(validateRouteMatcherOptions m \<noteq> None) = MalformedMatcher_spec m"
proof -
  from assms obtain kvs where m: "m = JObj kvs" by (rule plainMatcher_obj)
  have h: "lodash_has m ''https'' = hasOwn m ''https''" "lodash_has m ''port'' = hasOwn m ''port''"
    unfolding m by (simp_all add: top_path)
  have b: "lodash_isBoolean v = (case v of JBool b \<Rightarrow> True | _ \<Rightarrow> False)" for v
    by (simp add: lodash_isBoolean_def)
  show ?thesis
    unfolding validate_None_iff string_fields_ok_iff[OF assms] MalformedMatcher_spec_def h
      isNumberMatcher_spec b
    by blast
qed

section \<open>Assignments to a plain object\<close>

lemma alist_put_notin: "k \<notin> set (map fst r) \<Longrightarrow> alist_put k v r = r @ [(k, v)]"
  by (induction r) auto

lemma alist_put_twice: "alist_put k v (alist_put k w r) = alist_put k v r"
  by (induction r) auto

lemma map_of_alist_put: "map_of (alist_put k v r) = (map_of r)(k \<mapsto> v)"
  by (induction r) (auto simp: fun_eq_iff)

lemma keys_alist_put: "set (map fst (alist_put k v r)) = insert k (set (map fst r))"
  by (induction r) auto

lemma falsy_no_keys: "\<not> truthy v \<Longrightarrow> lodash_keys v = []"
  by (cases v) (simp_all add: lodash_keys_def)

lemma paths_list:
  "getAllStringMatcherFields m =
     [''method'', ''url'']
     @ map (\<lambda>k. ''headers'' @ CHR ''.'' # k) (lodash_keys (getProp m ''headers''))
     @ map (\<lambda>k. ''query'' @ CHR ''.'' # k) (lodash_keys (getProp m ''query''))"
  by (simp add: getAllStringMatcherFields_def STRING_MATCHER_FIELDS_def
        DICT_STRING_MATCHER_FIELDS_def Let_def falsy_no_keys)

lemma annotate_fold:
  "annotateMatcherOptionsTypes m =
     lodash_extend (fold (fieldStep AnnotatedStringMatcher m) (getAllStringMatcherFields m) (JObj []))
       (lodash_pick m [''https'', ''port'', ''webSocket''])"
  by (simp add: annotateMatcherOptionsTypes_def fieldStep_def[abs_def] Let_def)

lemma rehydrate_fold:
  "rehydrate m =
     lodash_extend (fold (fieldStep restoreStringMatcher m) (getAllStringMatcherFields m) (JObj []))
       (lodash_pick m [''https'', ''port'', ''webSocket''])"
  by (simp add: rehydrate_def fieldStep_def[abs_def] Let_def)

lemma fieldStep_top:
  assumes "f = ''method'' \<or> f = ''url''"
  shows "fieldStep g (JObj kvs) f (JObj r)
         = JObj (if truthy (getProp (JObj kvs) f) then alist_put f (g (getProp (JObj kvs) f)) r else r)"
proof -
  from assms have nd: "CHR ''.'' \<notin> set f" and ns: "\<not> unsafeKey f" by (auto simp: unsafeKey_def)
  have "lodash_get (JObj kvs) f = getProp (JObj kvs) f" using nd by (rule top_path)
  moreover have "lodash_set (JObj r) f x = JObj (alist_put f x r)" for x
    using ns by (simp add: lodash_set_def lodash_isObject_def castPath_top[OF nd])
  ultimately show ?thesis by (simp add: fieldStep_def Let_def)
qed

lemma fieldStep_nested:
  assumes top: "\<forall>x \<in> set (map fst kvs). CHR ''.'' \<notin> set x"
    and d: "d = ''headers'' \<or> d = ''query''"
    and v: "getProp (JObj kvs) d = JObj es"
    and k: "simpleKey k" "k \<notin> set (map fst acc)"
    and r: "\<forall>x \<in> set (map fst r). CHR ''.'' \<notin> set x"
    and acc: "map_of r d = None \<and> acc = [] \<or> map_of r d = Some (JObj acc)"
  shows "fieldStep g (JObj kvs) (d @ CHR ''.'' # k) (JObj r)
         = JObj (if truthy (getProp (JObj es) k)
                 then alist_put d (JObj (acc @ [(k, g (getProp (JObj es) k))])) r else r)"
proof -
  from d have dd: "CHR ''.'' \<notin> set d" and du: "\<not> unsafeKey d" by (auto simp: unsafeKey_def)
  from k(1) have kd: "CHR ''.'' \<notin> set k" and ku: "\<not> unsafeKey k" and ki: "index_of_key k = None"
    by (simp_all add: simpleKey_def plainKey_def)
  have cm: "castPath (d @ CHR ''.'' # k) (JObj kvs) = [d, k]"
    using dd kd top by (rule castPath_nested)
  have cr: "castPath (d @ CHR ''.'' # k) (JObj r) = [d, k]"
    using dd kd r by (rule castPath_nested)
  have g: "lodash_get (JObj kvs) (d @ CHR ''.'' # k) = getProp (JObj es) k"
  proof -
    have "baseGet (JObj kvs) [d, k] = getProp (getProp (JObj kvs) d) k"
      by (simp del: getProp.simps add: v)
    then show ?thesis unfolding lodash_get_def cm v .
  qed
  have nv: "(if lodash_isObject (getProp (JObj r) d) then getProp (JObj r) d
             else if index_of_key k \<noteq> None then JArr [] else JObj []) = JObj acc"
    using acc ki by (auto simp: lodash_isObject_def)
  have s: "lodash_set (JObj r) (d @ CHR ''.'' # k) x = JObj (alist_put d (JObj (acc @ [(k, x)])) r)" for x
  proof -
    have "baseSet (JObj r) [d, k] x = assignValue (JObj r) d (baseSet (JObj acc) [k] x)"
      using du nv by (simp del: getProp.simps add: Let_def)
    also have "baseSet (JObj acc) [k] x = JObj (acc @ [(k, x)])"
      using ku k(2) by (simp add: alist_put_notin)
    finally show ?thesis by (simp add: lodash_set_def lodash_isObject_def cr)
  qed
  show ?thesis by (simp only: fieldStep_def Let_def g s if_distrib[of JObj])
qed

lemma fold_dict:
  assumes top: "\<forall>x \<in> set (map fst kvs). CHR ''.'' \<notin> set x"
    and d: "d = ''headers'' \<or> d = ''query''"
    and v: "getProp (JObj kvs) d = JObj es"
  shows "\<lbrakk> distinct ks; \<forall>k \<in> set ks. simpleKey k; set ks \<inter> set (map fst acc) = {};
           \<forall>x \<in> set (map fst r). CHR ''.'' \<notin> set x;
           map_of r d = None \<and> acc = [] \<or> map_of r d = Some (JObj acc) \<rbrakk>
         \<Longrightarrow> fold (fieldStep g (JObj kvs)) (map (\<lambda>k. d @ CHR ''.'' # k) ks) (JObj r)
             = JObj (if dictEntries g (JObj es) ks = [] then r
                     else alist_put d (JObj (acc @ dictEntries g (JObj es) ks)) r)"
proof (induction ks arbitrary: r acc)
  case Nil
  then show ?case by (simp add: dictEntries_def)
next
  case (Cons k ks)
  from Cons.prems have k: "simpleKey k" "k \<notin> set (map fst acc)" "k \<notin> set ks" by auto
  note st = fieldStep_nested[OF top d v k(1,2) Cons.prems(4,5), of g]
  show ?case
  proof (cases "truthy (getProp (JObj es) k)")
    case False
    from Cons.prems have "fold (fieldStep g (JObj kvs)) (map (\<lambda>k. d @ CHR ''.'' # k) ks) (JObj r)
             = JObj (if dictEntries g (JObj es) ks = [] then r
                     else alist_put d (JObj (acc @ dictEntries g (JObj es) ks)) r)"
      by (intro Cons.IH) auto
    moreover have "dictEntries g (JObj es) (k # ks) = dictEntries g (JObj es) ks"
      using False by (simp add: dictEntries_def)
    ultimately show ?thesis using False by (simp del: getProp.simps add: st)
  next
    case True
    let ?x = "g (getProp (JObj es) k)"
    let ?acc = "acc @ [(k, ?x)]"
    let ?r = "alist_put d (JObj ?acc) r"
    from d have dd: "CHR ''.'' \<notin> set d" by auto
    have "fold (fieldStep g (JObj kvs)) (map (\<lambda>k. d @ CHR ''.'' # k) ks) (JObj ?r)
             = JObj (if dictEntries g (JObj es) ks = [] then ?r
                     else alist_put d (JObj (?acc @ dictEntries g (JObj es) ks)) ?r)"
    proof (intro Cons.IH)
      show "distinct ks" "\<forall>k \<in> set ks. simpleKey k" using Cons.prems by auto
      show "set ks \<inter> set (map fst ?acc) = {}" using Cons.prems k(3) by auto
      show "\<forall>x \<in> set (map fst ?r). CHR ''.'' \<notin> set x"
        using Cons.prems(4) dd unfolding keys_alist_put by blast
      show "map_of ?r d = None \<and> ?acc = [] \<or> map_of ?r d = Some (JObj ?acc)"
        by (simp add: map_of_alist_put)
    qed
    moreover have "dictEntries g (JObj es) (k # ks) = (k, ?x) # dictEntries g (JObj es) ks"
      using True by (simp add: dictEntries_def)
    ultimately show ?thesis using True
      by (simp del: getProp.simps add: st alist_put_twice)
  qed
qed

lemma simpleKey_plain: "simpleKey k \<Longrightarrow> plainKey k"
  by (simp add: simpleKey_def)

lemma simpleDict_plain: "simpleDict v \<Longrightarrow> plainDict v"
  by (cases v) (auto simp: simpleDict_def plainDict_def list_all_iff simpleKey_plain)

lemma simpleMatcher_plain: "simpleMatcher m \<Longrightarrow> plainMatcher m"
  by (cases m)
     (auto simp: simpleMatcher_def plainMatcher_def DICT_STRING_MATCHER_FIELDS_def simpleDict_plain
           simp del: getProp.simps)

lemma simpleMatcher_obj:
  assumes "simpleMatcher m"
  obtains kvs where "m = JObj kvs" "\<forall>x \<in> set (map fst kvs). CHR ''.'' \<notin> set x"
    "simpleDict (getProp m ''headers'')" "simpleDict (getProp m ''query'')"
proof (cases m)
  case (JObj kvs)
  with assms have "list_all plainKey (map fst kvs)"
    and "simpleDict (getProp m ''headers'')" "simpleDict (getProp m ''query'')"
    by (simp_all add: simpleMatcher_def DICT_STRING_MATCHER_FIELDS_def del: getProp.simps)
  moreover from this(1) have "\<forall>x \<in> set (map fst kvs). CHR ''.'' \<notin> set x"
    by (simp add: list_all_iff plainKey_def)
  ultimately show ?thesis using JObj that by blast
qed (use assms in \<open>simp_all add: simpleMatcher_def\<close>)

lemma fold_dict_fresh:
  assumes sm: "simpleMatcher m" and d: "d = ''headers'' \<or> d = ''query''"
    and r: "\<forall>x \<in> set (map fst r). CHR ''.'' \<notin> set x" "d \<notin> set (map fst r)"
  shows "fold (fieldStep g m) (map (\<lambda>k. d @ CHR ''.'' # k) (lodash_keys (getProp m d))) (JObj r)
         = JObj (r @ dictEntry g m d)"
proof -
  from sm obtain kvs where m: "m = JObj kvs"
    and top: "\<forall>x \<in> set (map fst kvs). CHR ''.'' \<notin> set x"
    and sd: "simpleDict (getProp m ''headers'')" "simpleDict (getProp m ''query'')"
    by (rule simpleMatcher_obj)
  from sd d have sdd: "simpleDict (getProp m d)" by auto
  show ?thesis
  proof (cases "lodash_keys (getProp m d) = []")
    case True
    then show ?thesis by (simp add: dictEntry_def dictEntries_def)
  next
    case False
    with sdd obtain es where es: "getProp m d = JObj es" "distinct (map fst es)"
      "list_all simpleKey (map fst es)"
      by (cases "getProp m d") (auto simp: simpleDict_def)
    have ks: "lodash_keys (getProp m d) = map fst es" by (simp add: es(1) lodash_keys_def)
    from r(2) have mo: "map_of r d = None" by (simp add: map_of_eq_None_iff)
    have "fold (fieldStep g (JObj kvs)) (map (\<lambda>k. d @ CHR ''.'' # k) (map fst es)) (JObj r)
          = JObj (if dictEntries g (JObj es) (map fst es) = [] then r
                  else alist_put d (JObj ([] @ dictEntries g (JObj es) (map fst es))) r)"
    proof (rule fold_dict[OF top d])
      show "getProp (JObj kvs) d = JObj es" using es(1) m by simp
      show "distinct (map fst es)" by (rule es(2))
      show "\<forall>k \<in> set (map fst es). simpleKey k" using es(3) by (simp add: list_all_iff)
      show "set (map fst es) \<inter> set (map fst []) = {}" by simp
      show "\<forall>x \<in> set (map fst r). CHR ''.'' \<notin> set x" by (rule r(1))
      show "map_of r d = None \<and> [] = [] \<or> map_of r d = Some (JObj [])" using mo by simp
    qed
    moreover have "getProp (JObj kvs) d = JObj es" using es(1) unfolding m .
    ultimately show ?thesis
      by (simp add: m dictEntry_def lodash_keys_def alist_put_notin[OF r(2)]
               del: getProp.simps)
  qed
qed

lemma fold_fields_closed:
  assumes sm: "simpleMatcher m"
  shows "fold (fieldStep g m) (getAllStringMatcherFields m) (JObj [])
         = JObj (topEntry g m ''method'' @ topEntry g m ''url''
                 @ dictEntry g m ''headers'' @ dictEntry g m ''query'')"
proof -
  from sm obtain kvs where m: "m = JObj kvs" by (rule simpleMatcher_obj)
  let ?r1 = "topEntry g m ''method''"
  let ?r2 = "?r1 @ topEntry g m ''url''"
  let ?r3 = "?r2 @ dictEntry g m ''headers''"
  have s1: "fieldStep g m ''method'' (JObj []) = JObj ?r1"
    unfolding m by (simp add: fieldStep_top topEntry_def del: getProp.simps)
  have k1: "set (map fst ?r1) \<subseteq> {''method''}" by (auto simp: topEntry_def)
  have s2: "fieldStep g m ''url'' (JObj ?r1) = JObj ?r2"
  proof -
    have "''url'' \<notin> set (map fst ?r1)" using k1 by auto
    then show ?thesis
      unfolding m by (simp add: fieldStep_top alist_put_notin topEntry_def del: getProp.simps)
  qed
  have k2: "set (map fst ?r2) \<subseteq> {''method'', ''url''}" by (auto simp: topEntry_def)
  have s3: "fold (fieldStep g m) (map (\<lambda>k. ''headers'' @ CHR ''.'' # k)
              (lodash_keys (getProp m ''headers''))) (JObj ?r2) = JObj ?r3"
  proof (rule fold_dict_fresh[OF sm])
    show "''headers'' = ''headers'' \<or> ''headers'' = ''query''" by simp
    show "\<forall>x \<in> set (map fst ?r2). CHR ''.'' \<notin> set x" using k2 by auto
    show "''headers'' \<notin> set (map fst ?r2)" using k2 by auto
  qed
  have k3: "set (map fst ?r3) \<subseteq> {''method'', ''url'', ''headers''}"
    using k2 by (auto simp: dictEntry_def)
  have s4: "fold (fieldStep g m) (map (\<lambda>k. ''query'' @ CHR ''.'' # k)
              (lodash_keys (getProp m ''query''))) (JObj ?r3) = JObj (?r3 @ dictEntry g m ''query'')"
  proof (rule fold_dict_fresh[OF sm])
    show "''query'' = ''headers'' \<or> ''query'' = ''query''" by simp
    show "\<forall>x \<in> set (map fst ?r3). CHR ''.'' \<notin> set x" using k3 by auto
    show "''query'' \<notin> set (map fst ?r3)" using k3 by auto
  qed
  show ?thesis
    unfolding paths_list fold_append fold_simps comp_apply s1 s2 s3 s4 by simp
qed

lemma pickedEntry_keys: "set (map fst (pickedEntry m f)) \<subseteq> {f}"
  by (auto simp: pickedEntry_def)

lemma pick_step:
  assumes "f = ''https'' \<or> f = ''port'' \<or> f = ''webSocket''" "f \<notin> set (map fst r)"
  shows "(if lodash_has (JObj kvs) f
          then baseSet (JObj r) (castPath f (JObj kvs)) (lodash_get (JObj kvs) f) else JObj r)
         = JObj (r @ pickedEntry (JObj kvs) f)"
proof -
  from assms(1) have nd: "CHR ''.'' \<notin> set f" and ns: "\<not> unsafeKey f"
    by (auto simp: unsafeKey_def)
  show ?thesis
    using ns assms(2)
    by (simp add: top_path[OF nd] castPath_top[OF nd] pickedEntry_def alist_put_notin
             del: getProp.simps hasOwn.simps)
qed

lemma pick_closed:
  "lodash_pick (JObj kvs) [''https'', ''port'', ''webSocket'']
   = JObj (pickedEntry (JObj kvs) ''https'' @ pickedEntry (JObj kvs) ''port''
           @ pickedEntry (JObj kvs) ''webSocket'')"
proof -
  let ?m = "JObj kvs"
  have 1: "(if lodash_has ?m ''https''
          then baseSet (JObj []) (castPath ''https'' ?m) (lodash_get ?m ''https'') else JObj [])
         = JObj ([] @ pickedEntry ?m ''https'')"
    by (rule pick_step) simp_all
  have 2: "(if lodash_has ?m ''port''
          then baseSet (JObj (pickedEntry ?m ''https'')) (castPath ''port'' ?m) (lodash_get ?m ''port'')
          else JObj (pickedEntry ?m ''https''))
         = JObj (pickedEntry ?m ''https'' @ pickedEntry ?m ''port'')"
    using pickedEntry_keys[of ?m "''https''"] by (intro pick_step) auto
  have 3: "(if lodash_has ?m ''webSocket''
          then baseSet (JObj (pickedEntry ?m ''https'' @ pickedEntry ?m ''port''))
                 (castPath ''webSocket'' ?m) (lodash_get ?m ''webSocket'')
          else JObj (pickedEntry ?m ''https'' @ pickedEntry ?m ''port''))
         = JObj ((pickedEntry ?m ''https'' @ pickedEntry ?m ''port'') @ pickedEntry ?m ''webSocket'')"
    using pickedEntry_keys[of ?m "''https''"] pickedEntry_keys[of ?m "''port''"]
    by (intro pick_step) auto
  show ?thesis
    unfolding lodash_pick_def fold_simps using 1 2 3 by (simp only: append_Nil append_assoc)
qed

lemma extend_fold:
  "\<lbrakk> distinct (map fst ps); set (map fst ps) \<inter> set (map fst r) = {};
     \<forall>p \<in> set ps. getProp src (fst p) = snd p \<rbrakk>
   \<Longrightarrow> fold (\<lambda>k r. assignValue r k (getProp src k)) (map fst ps) (JObj r) = JObj (r @ ps)"
proof (induction ps arbitrary: r)
  case Nil
  then show ?case by simp
next
  case (Cons p ps)
  from Cons.prems have n: "fst p \<notin> set (map fst r)" and v: "getProp src (fst p) = snd p" by auto
  have "fold (\<lambda>k r. assignValue r k (getProp src k)) (map fst ps) (JObj (r @ [p]))
        = JObj ((r @ [p]) @ ps)"
    using Cons.prems by (intro Cons.IH) auto
  then show ?case using n v by (simp add: alist_put_notin del: getProp.simps)
qed

lemma extend_closed:
  assumes "distinct (map fst ps)" "set (map fst ps) \<inter> set (map fst r) = {}"
  shows "lodash_extend (JObj r) (JObj ps) = JObj (r @ ps)"
proof -
  have "\<forall>p \<in> set ps. getProp (JObj ps) (fst p) = snd p"
    using assms(1) by (auto simp: map_of_is_SomeI[of ps])
  with assms show ?thesis
    unfolding lodash_extend_def by (simp add: lodash_keys_def extend_fold del: getProp.simps)
qed

lemma topEntry_keys: "set (map fst (topEntry g m f)) \<subseteq> {f}"
  by (auto simp: topEntry_def)

lemma dictEntry_keys: "set (map fst (dictEntry g m d)) \<subseteq> {d}"
  by (auto simp: dictEntry_def)

lemma fields_keys:
  "set (map fst (topEntry g m ''method'' @ topEntry g m ''url''
            @ dictEntry g m ''headers'' @ dictEntry g m ''query''))
   \<subseteq> {''method'', ''url'', ''headers'', ''query''}"
  using topEntry_keys[of g m "''method''"] topEntry_keys[of g m "''url''"]
      dictEntry_keys[of g m "''headers''"] dictEntry_keys[of g m "''query''"]
  by (simp only: map_append set_append) blast

lemma picked_keys:
  "set (map fst (pickedEntry m ''https'' @ pickedEntry m ''port'' @ pickedEntry m ''webSocket''))
   \<subseteq> {''https'', ''port'', ''webSocket''}"
  using pickedEntry_keys[of m "''https''"] pickedEntry_keys[of m "''port''"]
      pickedEntry_keys[of m "''webSocket''"]
  by (simp only: map_append set_append) blast

lemma picked_distinct:
  "distinct (map fst (pickedEntry m ''https'' @ pickedEntry m ''port''
                      @ pickedEntry m ''webSocket''))"
  by (simp add: pickedEntry_def del: getProp.simps hasOwn.simps)

lemma names_disjoint:
  "{''https'', ''port'', ''webSocket''} \<inter> {''method'', ''url'', ''headers'', ''query''} = {}"
  by simp

lemma matcher_closed:
  assumes sm: "simpleMatcher m"
  shows "lodash_extend (fold (fieldStep g m) (getAllStringMatcherFields m) (JObj []))
           (lodash_pick m [''https'', ''port'', ''webSocket''])
         = mappedMatcher g m"
proof -
  from sm obtain kvs where m: "m = JObj kvs" by (rule simpleMatcher_obj)
  let ?r = "topEntry g m ''method'' @ topEntry g m ''url''
            @ dictEntry g m ''headers'' @ dictEntry g m ''query''"
  let ?ps = "pickedEntry m ''https'' @ pickedEntry m ''port'' @ pickedEntry m ''webSocket''"
  have dj: "set (map fst ?ps) \<inter> set (map fst ?r) = {}"
    using picked_keys[of m] fields_keys[of g m] names_disjoint by blast
  have "lodash_extend (JObj ?r) (JObj ?ps) = JObj (?r @ ?ps)"
    using picked_distinct dj by (rule extend_closed)
  moreover have "lodash_pick m [''https'', ''port'', ''webSocket''] = JObj ?ps"
    unfolding m by (rule pick_closed)
  ultimately show ?thesis
    unfolding fold_fields_closed[OF sm] mappedMatcher_def
    by (simp only: append_assoc)
qed

lemma annotate_closed:
  "simpleMatcher m \<Longrightarrow> annotateMatcherOptionsTypes m = mappedMatcher AnnotatedStringMatcher m"
  unfolding annotate_fold by (rule matcher_closed)

lemma rehydrate_closed:
  "simpleMatcher m \<Longrightarrow> rehydrate m = mappedMatcher restoreStringMatcher m"
  unfolding rehydrate_fold by (rule matcher_closed)

lemma map_of_append_skip: "k \<notin> set (map fst xs) \<Longrightarrow> map_of (xs @ ys) k = map_of ys k"
  by (simp add: map_add_def map_of_eq_None_iff[THEN iffD2] split: option.splits)

lemma map_of_append_last: "k \<notin> set (map fst ys) \<Longrightarrow> map_of (xs @ ys) k = map_of xs k"
  by (simp add: map_add_def map_of_eq_None_iff[THEN iffD2] split: option.splits)

lemma topEntry_notin: "k \<noteq> f \<Longrightarrow> k \<notin> set (map fst (topEntry g m f))"
  using topEntry_keys[of g m f] by blast

lemma dictEntry_notin: "k \<noteq> d \<Longrightarrow> k \<notin> set (map fst (dictEntry g m d))"
  using dictEntry_keys[of g m d] by blast

lemma pickedEntry_notin: "k \<noteq> f \<Longrightarrow> k \<notin> set (map fst (pickedEntry m f))"
  using pickedEntry_keys[of m f] by blast

lemma notin_append:
  "k \<notin> set (map fst xs) \<Longrightarrow> k \<notin> set (map fst ys) \<Longrightarrow> k \<notin> set (map fst (xs @ ys))"
  by simp

lemma topEntry_same:
  "map_of (topEntry g m f) f = (if truthy (getProp m f) then Some (g (getProp m f)) else None)"
  by (simp add: topEntry_def)

lemma dictEntry_same:
  "map_of (dictEntry g m d) d
   = (if dictEntries g (getProp m d) (lodash_keys (getProp m d)) = [] then None
      else Some (JObj (dictEntries g (getProp m d) (lodash_keys (getProp m d)))))"
  by (simp add: dictEntry_def)

lemma pickedEntry_same:
  "map_of (pickedEntry m f) f = (if hasOwn m f then Some (getProp m f) else None)"
  by (simp add: pickedEntry_def)

lemma map_of_mapped:
  fixes g m
  defines "L \<equiv> topEntry g m ''method'' @ topEntry g m ''url''
           @ dictEntry g m ''headers'' @ dictEntry g m ''query''
           @ pickedEntry m ''https'' @ pickedEntry m ''port'' @ pickedEntry m ''webSocket''"
  shows "map_of L ''method'' = map_of (topEntry g m ''method'') ''method''"
    and "map_of L ''url'' = map_of (topEntry g m ''url'') ''url''"
    and "map_of L ''headers'' = map_of (dictEntry g m ''headers'') ''headers''"
    and "map_of L ''query'' = map_of (dictEntry g m ''query'') ''query''"
    and "map_of L ''https'' = map_of (pickedEntry m ''https'') ''https''"
    and "map_of L ''port'' = map_of (pickedEntry m ''port'') ''port''"
    and "map_of L ''webSocket'' = map_of (pickedEntry m ''webSocket'') ''webSocket''"
  unfolding L_def
  by (simp_all only: map_of_append_skip[OF topEntry_notin] map_of_append_skip[OF dictEntry_notin]
        map_of_append_skip[OF pickedEntry_notin]
        map_of_append_last[OF notin_append] map_of_append_last[OF topEntry_notin]
        map_of_append_last[OF dictEntry_notin] map_of_append_last[OF pickedEntry_notin]
        notin_append topEntry_notin dictEntry_notin pickedEntry_notin
        char.inject simp_thms list.simps)

lemma hasOwn_map_of: "hasOwn (JObj kvs) k = (map_of kvs k \<noteq> None)"
  by (simp add: map_of_eq_None_iff)

lemma getProp_map_of: "getProp (JObj kvs) k = (case map_of kvs k of Some v \<Rightarrow> v | None \<Rightarrow> JUndefined)"
  by simp

lemma getProp_mapped_top:
  assumes "f = ''method'' \<or> f = ''url''"
  shows "getProp (mappedMatcher g m) f = (if truthy (getProp m f) then g (getProp m f) else JUndefined)"
    and "hasOwn (mappedMatcher g m) f = truthy (getProp m f)"
  using assms
  by (auto simp only: mappedMatcher_def getProp_map_of hasOwn_map_of map_of_mapped topEntry_same
        split: if_splits) simp_all

lemma getProp_mapped_dict:
  assumes "d = ''headers'' \<or> d = ''query''"
  shows "getProp (mappedMatcher g m) d
         = (if dictEntries g (getProp m d) (lodash_keys (getProp m d)) = [] then JUndefined
            else JObj (dictEntries g (getProp m d) (lodash_keys (getProp m d))))"
    and "hasOwn (mappedMatcher g m) d
         = (dictEntries g (getProp m d) (lodash_keys (getProp m d)) \<noteq> [])"
  using assms
  by (auto simp only: mappedMatcher_def getProp_map_of hasOwn_map_of map_of_mapped dictEntry_same
        split: if_splits) simp_all

lemma getProp_mapped_picked:
  assumes "f = ''https'' \<or> f = ''port'' \<or> f = ''webSocket''"
  shows "getProp (mappedMatcher g m) f = (if hasOwn m f then getProp m f else JUndefined)"
    and "hasOwn (mappedMatcher g m) f = hasOwn m f"
  using assms
  by (auto simp only: mappedMatcher_def getProp_map_of hasOwn_map_of map_of_mapped pickedEntry_same
        split: if_splits) simp_all

lemma dictEntries_keys: "map fst (dictEntries g v ks) = filter (\<lambda>k. truthy (getProp v k)) ks"
  by (simp add: dictEntries_def comp_def)

lemma simpleDict_keys:
  assumes "simpleDict v"
  shows "distinct (lodash_keys v)" "\<forall>k \<in> set (lodash_keys v). simpleKey k"
  using assms by (cases v; simp add: simpleDict_def lodash_keys_def list_all_iff)+

lemma topEntry_plain: "plainKey f \<Longrightarrow> list_all plainKey (map fst (topEntry g m f))"
  by (simp add: topEntry_def)

lemma dictEntry_plain: "plainKey d \<Longrightarrow> list_all plainKey (map fst (dictEntry g m d))"
  by (simp add: dictEntry_def)

lemma pickedEntry_plain: "plainKey f \<Longrightarrow> list_all plainKey (map fst (pickedEntry m f))"
  by (simp add: pickedEntry_def)

lemma names_plain:
  "plainKey ''method''" "plainKey ''url''" "plainKey ''headers''" "plainKey ''query''"
  "plainKey ''https''" "plainKey ''port''" "plainKey ''webSocket''"
  by (simp_all add: plainKey_def)

lemma mapped_keys_plain: "list_all plainKey (map fst
     (topEntry g m ''method'' @ topEntry g m ''url''
      @ dictEntry g m ''headers'' @ dictEntry g m ''query''
      @ pickedEntry m ''https'' @ pickedEntry m ''port'' @ pickedEntry m ''webSocket''))"
  by (simp only: map_append list_all_append topEntry_plain dictEntry_plain pickedEntry_plain
        names_plain simp_thms)

lemma mapped_dict_simple:
  assumes "simpleDict (getProp m d)" "d = ''headers'' \<or> d = ''query''"
  shows "simpleDict (getProp (mappedMatcher g m) d)"
proof (cases "dictEntries g (getProp m d) (lodash_keys (getProp m d)) = []")
  case True
  then show ?thesis
    by (simp add: getProp_mapped_dict(1)[OF assms(2)] simpleDict_def lodash_keys_def
             del: getProp.simps)
next
  case False
  have "distinct (map fst (dictEntries g (getProp m d) (lodash_keys (getProp m d))))"
    unfolding dictEntries_keys using simpleDict_keys(1)[OF assms(1)] by simp
  moreover have "list_all simpleKey (map fst (dictEntries g (getProp m d) (lodash_keys (getProp m d))))"
    unfolding dictEntries_keys list_all_iff using simpleDict_keys(2)[OF assms(1)] by simp
  ultimately show ?thesis using False
    by (simp add: getProp_mapped_dict(1)[OF assms(2)] simpleDict_def del: getProp.simps)
qed

lemma mapped_simple:
  assumes "simpleMatcher m"
  shows "simpleMatcher (mappedMatcher g m)"
proof -
  from assms obtain kvs where sd: "simpleDict (getProp m ''headers'')" "simpleDict (getProp m ''query'')"
    by (rule simpleMatcher_obj)
  have "simpleDict (getProp (mappedMatcher g m) ''headers'')"
    "simpleDict (getProp (mappedMatcher g m) ''query'')"
    using sd by (simp_all add: mapped_dict_simple del: getProp.simps)
  then show ?thesis
    using mapped_keys_plain[of g m]
    unfolding simpleMatcher_def DICT_STRING_MATCHER_FIELDS_def mappedMatcher_def
    by (simp del: getProp.simps)
qed

lemma dictEntries_lookup:
  "map_of (dictEntries g v ks) k
   = (if k \<in> set ks \<and> truthy (getProp v k) then Some (g (getProp v k)) else None)"
  by (induction ks) (simp_all add: dictEntries_def del: getProp.simps)

lemma mapped_dotfree:
  "\<forall>x \<in> set (map fst
     (topEntry g m ''method'' @ topEntry g m ''url''
      @ dictEntry g m ''headers'' @ dictEntry g m ''query''
      @ pickedEntry m ''https'' @ pickedEntry m ''port'' @ pickedEntry m ''webSocket'')).
     CHR ''.'' \<notin> set x"
  using mapped_keys_plain[of g m] unfolding list_all_iff plainKey_def by blast

lemma mapped_top:
  assumes "f = ''method'' \<or> f = ''url''"
  shows "lodash_has (mappedMatcher g m) f = truthy (getProp m f)"
    and "lodash_get (mappedMatcher g m) f
         = (if truthy (getProp m f) then g (getProp m f) else JUndefined)"
proof -
  from assms have nd: "CHR ''.'' \<notin> set f" by auto
  have "lodash_has (mappedMatcher g m) f = hasOwn (mappedMatcher g m) f"
    unfolding mappedMatcher_def using nd by (rule top_path)
  then show "lodash_has (mappedMatcher g m) f = truthy (getProp m f)"
    by (simp only: getProp_mapped_top(2)[OF assms])
  have "lodash_get (mappedMatcher g m) f = getProp (mappedMatcher g m) f"
    unfolding mappedMatcher_def using nd by (rule top_path)
  then show "lodash_get (mappedMatcher g m) f
         = (if truthy (getProp m f) then g (getProp m f) else JUndefined)"
    by (simp only: getProp_mapped_top(1)[OF assms])
qed

lemma mapped_nested:
  assumes sm: "simpleMatcher m" and d: "d = ''headers'' \<or> d = ''query''"
    and k: "k \<in> set (lodash_keys (getProp m d))"
  shows "lodash_has (mappedMatcher g m) (d @ CHR ''.'' # k) = truthy (getProp (getProp m d) k)"
    and "lodash_get (mappedMatcher g m) (d @ CHR ''.'' # k)
         = (if truthy (getProp (getProp m d) k) then g (getProp (getProp m d) k) else JUndefined)"
proof -
  let ?v = "getProp m d"
  let ?E = "dictEntries g ?v (lodash_keys ?v)"
  from sm obtain kvs where sd: "simpleDict (getProp m ''headers'')" "simpleDict (getProp m ''query'')"
    by (rule simpleMatcher_obj)
  with d have "simpleDict ?v" by auto
  with k have "simpleKey k" using simpleDict_keys(2) by blast
  then have kd: "CHR ''.'' \<notin> set k" by (simp add: simpleKey_def plainKey_def)
  from d have dd: "CHR ''.'' \<notin> set d" by auto
  have cp: "castPath (d @ CHR ''.'' # k) (mappedMatcher g m) = [d, k]"
    unfolding mappedMatcher_def using dd kd mapped_dotfree by (rule castPath_nested)
  have lk: "map_of ?E k = (if truthy (getProp ?v k) then Some (g (getProp ?v k)) else None)"
    using k by (simp add: dictEntries_lookup del: getProp.simps)
  have A: "mappedMatcher g m \<noteq> JNull" "mappedMatcher g m \<noteq> JUndefined"
    by (simp_all add: mappedMatcher_def)
  show "lodash_has (mappedMatcher g m) (d @ CHR ''.'' # k) = truthy (getProp ?v k)"
  proof (cases "?E = []")
    case True
    with lk have "\<not> truthy (getProp ?v k)" by (auto split: if_splits)
    then show ?thesis
      using True by (simp add: lodash_has_def cp getProp_mapped_dict(2)[OF d]
                          del: getProp.simps hasOwn.simps)
  next
    case False
    then show ?thesis
      using lk by (simp add: lodash_has_def cp getProp_mapped_dict[OF d] hasOwn_map_of
                        del: getProp.simps hasOwn.simps)
  qed
  show "lodash_get (mappedMatcher g m) (d @ CHR ''.'' # k)
         = (if truthy (getProp ?v k) then g (getProp ?v k) else JUndefined)"
  proof (cases "?E = []")
    case True
    with lk have "\<not> truthy (getProp ?v k)" by (auto split: if_splits)
    then show ?thesis
      using True A by (simp add: lodash_get_def cp getProp_mapped_dict(1)[OF d]
                          del: getProp.simps)
  next
    case False
    then show ?thesis
      using lk A by (simp add: lodash_get_def cp getProp_mapped_dict(1)[OF d]
                        del: getProp.simps) simp
  qed
qed

section \<open>Annotate, then rehydrate\<close>

lemma restore_annotate:
  "isStringOrPattern v \<Longrightarrow> restoreStringMatcher (AnnotatedStringMatcher v) = v"
  by (cases v)
     (simp_all add: isStringOrPattern_def restoreStringMatcher_def AnnotatedStringMatcher_def
        isRegExp_def)

lemma truthy_annotate: "truthy (AnnotatedStringMatcher v)"
  by (simp add: AnnotatedStringMatcher_def)

lemma nonempty_truthy: "isStringOrPattern v \<Longrightarrow> v \<noteq> JStr '''' \<Longrightarrow> truthy v"
  by (cases v) (simp_all add: isStringOrPattern_def)

lemma getProp_absent: "\<not> hasOwn (JObj kvs) f \<Longrightarrow> getProp (JObj kvs) f = JUndefined"
  by (simp add: map_of_eq_None_iff[THEN iffD2])

lemma map_of_keyed: "k \<in> set ks \<Longrightarrow> map_of (map (\<lambda>k. (k, h k)) ks) k = Some (h k)"
  by (induction ks) auto

lemma roundtrip_top:
  assumes f: "f = ''method'' \<or> f = ''url''"
    and ok: "hasOwn (JObj kvs) f \<longrightarrow>
               isStringOrPattern (getProp (JObj kvs) f) \<and> getProp (JObj kvs) f \<noteq> JStr ''''"
  shows "getProp (mappedMatcher restoreStringMatcher (mappedMatcher AnnotatedStringMatcher (JObj kvs))) f
         = getProp (JObj kvs) f
       \<and> hasOwn (mappedMatcher restoreStringMatcher (mappedMatcher AnnotatedStringMatcher (JObj kvs))) f
         = hasOwn (JObj kvs) f"
proof (cases "hasOwn (JObj kvs) f")
  case True
  with ok have sp: "isStringOrPattern (getProp (JObj kvs) f)" and t: "truthy (getProp (JObj kvs) f)"
    by (auto intro: nonempty_truthy)
  show ?thesis
    using True t by (simp only: getProp_mapped_top[OF f] if_True truthy_annotate
          restore_annotate[OF sp] simp_thms)
next
  case False
  then have u: "getProp (JObj kvs) f = JUndefined" by (rule getProp_absent)
  have nt: "\<not> truthy JUndefined" by simp
  show ?thesis
    using False by (simp only: getProp_mapped_top[OF f] u nt if_False simp_thms)
qed

lemma roundtrip_picked:
  assumes f: "f = ''https'' \<or> f = ''port'' \<or> f = ''webSocket''"
  shows "getProp (mappedMatcher g' (mappedMatcher g (JObj kvs))) f = getProp (JObj kvs) f
       \<and> hasOwn (mappedMatcher g' (mappedMatcher g (JObj kvs))) f = hasOwn (JObj kvs) f"
proof (cases "hasOwn (JObj kvs) f")
  case True
  then show ?thesis by (simp only: getProp_mapped_picked[OF f] if_True simp_thms)
next
  case False
  then have u: "getProp (JObj kvs) f = JUndefined" by (rule getProp_absent)
  show ?thesis using False by (simp only: getProp_mapped_picked[OF f] u if_False simp_thms)
qed

lemma roundtrip_dict:
  assumes d: "d = ''headers'' \<or> d = ''query''"
    and ok: "\<forall>k \<in> set (lodash_keys (getProp m d)).
               isStringOrPattern (getProp (getProp m d) k) \<and> getProp (getProp m d) k \<noteq> JStr ''''"
  shows "lodash_keys (getProp (mappedMatcher restoreStringMatcher
                                 (mappedMatcher AnnotatedStringMatcher m)) d)
         = lodash_keys (getProp m d)
       \<and> (\<forall>k \<in> set (lodash_keys (getProp m d)).
            getProp (getProp (mappedMatcher restoreStringMatcher
                                (mappedMatcher AnnotatedStringMatcher m)) d) k
            = getProp (getProp m d) k)"
proof -
  let ?v = "getProp m d"
  let ?ks = "lodash_keys ?v"
  let ?A = "mappedMatcher AnnotatedStringMatcher m"
  let ?E = "map (\<lambda>k. (k, AnnotatedStringMatcher (getProp ?v k))) ?ks"
  let ?E' = "map (\<lambda>k. (k, getProp ?v k)) ?ks"
  from ok have t: "\<forall>k \<in> set ?ks. truthy (getProp ?v k)" by (auto intro: nonempty_truthy)
  then have "filter (\<lambda>k. truthy (getProp ?v k)) ?ks = ?ks" by (simp add: filter_id_conv)
  then have E: "dictEntries AnnotatedStringMatcher ?v ?ks = ?E" by (simp add: dictEntries_def)
  show ?thesis
  proof (cases "?ks = []")
    case True
    with E have "getProp ?A d = JUndefined"
      by (simp only: getProp_mapped_dict(1)[OF d] list.map if_True simp_thms)
    then have "getProp (mappedMatcher restoreStringMatcher ?A) d = JUndefined"
      by (simp only: getProp_mapped_dict(1)[OF d, of restoreStringMatcher ?A])
         (simp add: lodash_keys_def dictEntries_def)
    with True show ?thesis by (simp add: lodash_keys_def)
  next
    case False
    then have "?E \<noteq> []" by simp
    with E have Ad: "getProp ?A d = JObj ?E"
      by (simp only: getProp_mapped_dict(1)[OF d] if_False)
    have kE: "lodash_keys (JObj ?E) = ?ks" by (simp add: lodash_keys_def comp_def)
    have gE: "getProp (JObj ?E) k = AnnotatedStringMatcher (getProp ?v k)" if "k \<in> set ?ks" for k
      using map_of_keyed[OF that, of "\<lambda>k. AnnotatedStringMatcher (getProp ?v k)"] by simp
    have "filter (\<lambda>k. truthy (getProp (JObj ?E) k)) ?ks = ?ks"
      unfolding filter_id_conv using gE truthy_annotate by simp
    moreover have "map (\<lambda>k. (k, restoreStringMatcher (getProp (JObj ?E) k))) ?ks = ?E'"
    proof (rule map_cong[OF refl])
      fix k assume k: "k \<in> set ?ks"
      with ok have "isStringOrPattern (getProp ?v k)" by blast
      then show "(k, restoreStringMatcher (getProp (JObj ?E) k)) = (k, getProp ?v k)"
        by (simp only: gE[OF k] restore_annotate)
    qed
    ultimately have E': "dictEntries restoreStringMatcher (JObj ?E) ?ks = ?E'"
      by (simp only: dictEntries_def)
    from False have "?E' \<noteq> []" by simp
    with E' have Rd: "getProp (mappedMatcher restoreStringMatcher ?A) d = JObj ?E'"
      by (simp only: getProp_mapped_dict(1)[OF d, of restoreStringMatcher ?A] Ad kE if_False)
    have "lodash_keys (JObj ?E') = ?ks" by (simp add: lodash_keys_def comp_def)
    moreover have "\<forall>k \<in> set ?ks. getProp (JObj ?E') k = getProp ?v k"
      using map_of_keyed[of _ ?ks "\<lambda>k. getProp ?v k"] by simp
    ultimately show ?thesis by (simp only: Rd simp_thms)
  qed
qed

section \<open>Empty strings\<close>

lemma empty_string_not_empty_matcher:
  assumes "simpleMatcher m" "p \<in> set (getAllStringMatcherFields m)" "lodash_get m p = JStr ''''"
  shows "\<not> lodash_isEmpty m"
proof -
  from assms(1) obtain kvs where m: "m = JObj kvs" by (rule simpleMatcher_obj)
  have "kvs \<noteq> []"
  proof
    assume e: "kvs = []"
    from assms(2) show False
    proof (cases rule: paths_cases)
      case top
      then have "CHR ''.'' \<notin> set p" by auto
      then have "lodash_get m p = getProp m p" unfolding m by (rule top_path)
      with assms(3) show False by (simp add: m e)
    next
      case (nested d k)
      then show False by (simp add: m e)
    qed
  qed
  then show ?thesis by (simp add: m lodash_isEmpty_def)
qed

text \<open>
  C9. In a simple matcher, let a string or pattern capable field \<open>p\<close> (a top-level field
  or a nested entry of \<^verbatim>\<open>headers\<close> or \<^verbatim>\<open>query\<close>) hold the empty string. The value
  passes the validator's test, so that validation succeeds exactly when every other
  check does; and the annotated matcher does not have the field at all.
\<close>

theorem empty_string_valid_but_not_annotated:
  assumes "simpleMatcher m" "p \<in> set (getAllStringMatcherFields m)" "lodash_get m p = JStr ''''"
  shows "isStringMatcher (lodash_get m p)
     \<and> ((validateRouteMatcherOptions m = None) =
          ((\<forall>q \<in> set (getAllStringMatcherFields m) - {p}.
               \<not> (lodash_has m q \<and> \<not> isStringMatcher (lodash_get m q)))
           \<and> \<not> (lodash_has m ''https'' \<and> \<not> lodash_isBoolean (getProp m ''https''))
           \<and> \<not> (lodash_has m ''port'' \<and> \<not> isNumberMatcher (getProp m ''port''))))
     \<and> \<not> lodash_has (annotateMatcherOptionsTypes m) p
     \<and> lodash_get (annotateMatcherOptionsTypes m) p = JUndefined"
proof (intro conjI)
  show sm: "isStringMatcher (lodash_get m p)"
    by (simp add: assms(3) isStringMatcher_def lodash_isString_def)
  have ne: "\<not> lodash_isEmpty m" using assms by (rule empty_string_not_empty_matcher)
  have "(\<forall>q \<in> set (getAllStringMatcherFields m).
            \<not> (lodash_has m q \<and> \<not> isStringMatcher (lodash_get m q)))
      = (\<forall>q \<in> set (getAllStringMatcherFields m) - {p}.
            \<not> (lodash_has m q \<and> \<not> isStringMatcher (lodash_get m q)))"
    using sm by blast
  then show "(validateRouteMatcherOptions m = None) =
          ((\<forall>q \<in> set (getAllStringMatcherFields m) - {p}.
               \<not> (lodash_has m q \<and> \<not> isStringMatcher (lodash_get m q)))
           \<and> \<not> (lodash_has m ''https'' \<and> \<not> lodash_isBoolean (getProp m ''https''))
           \<and> \<not> (lodash_has m ''port'' \<and> \<not> isNumberMatcher (getProp m ''port'')))"
    unfolding validate_None_iff using ne by simp
  from assms(1) obtain kvs where m: "m = JObj kvs" by (rule simpleMatcher_obj)
  have pm: "plainMatcher m" using assms(1) by (rule simpleMatcher_plain)
  from assms(2)
  have "\<not> lodash_has (mappedMatcher AnnotatedStringMatcher m) p
        \<and> lodash_get (mappedMatcher AnnotatedStringMatcher m) p = JUndefined"
  proof (cases rule: paths_cases)
    case top
    then have "CHR ''.'' \<notin> set p" by auto
    then have "lodash_get m p = getProp m p" unfolding m by (rule top_path)
    with assms(3) have "\<not> truthy (getProp m p)" by simp
    then show ?thesis by (simp only: mapped_top[OF top] if_False simp_thms)
  next
    case (nested d k)
    from nested_path(2)[OF pm nested(1,3)] assms(3) nested(2)
    have "\<not> truthy (getProp (getProp m d) k)" by simp
    then show ?thesis
      unfolding nested(2)
      by (simp only: mapped_nested[OF assms(1) nested(1,3)] if_False simp_thms)
  qed
  then have r: "\<not> lodash_has (annotateMatcherOptionsTypes m) p
        \<and> lodash_get (annotateMatcherOptionsTypes m) p = JUndefined"
    unfolding annotate_closed[OF assms(1)] .
  from r show "\<not> lodash_has (annotateMatcherOptionsTypes m) p" ..
  from r show "lodash_get (annotateMatcherOptionsTypes m) p = JUndefined" ..
qed

theorem empty_string_valid_but_not_annotated_witness:
  "simpleMatcher (JObj [(''url'', JStr '''')])
   \<and> ''url'' \<in> set (getAllStringMatcherFields (JObj [(''url'', JStr '''')]))
   \<and> lodash_get (JObj [(''url'', JStr '''')]) ''url'' = JStr ''''
   \<and> validateRouteMatcherOptions (JObj [(''url'', JStr '''')]) = None
   \<and> annotateMatcherOptionsTypes (JObj [(''url'', JStr '''')]) = JObj []
   \<and> \<not> lodash_has (annotateMatcherOptionsTypes (JObj [(''url'', JStr '''')])) ''url''"
proof -
  have a: "simpleMatcher (JObj [(''url'', JStr '''')])"
    by (simp add: simpleMatcher_def simpleDict_def plainKey_def DICT_STRING_MATCHER_FIELDS_def
          lodash_keys_def)
  have b: "''url'' \<in> set (getAllStringMatcherFields (JObj [(''url'', JStr '''')]))"
    by (simp add: eval_defs)
  have c: "lodash_get (JObj [(''url'', JStr '''')]) ''url'' = JStr ''''"
    by (simp add: eval_defs)
  have d: "validateRouteMatcherOptions (JObj [(''url'', JStr '''')]) = None"
    by (simp add: eval_defs)
  have e: "annotateMatcherOptionsTypes (JObj [(''url'', JStr '''')]) = JObj []"
    by (simp add: eval_defs)
  from empty_string_valid_but_not_annotated[OF a b c] a b c d e show ?thesis by blast
qed

text \<open>
  C5, as the code has it. Take a simple matcher that passes validation and in which no
  string or pattern capable field holds the empty string. Annotating it and
  rehydrating the annotated form gives a matcher with the same \<^verbatim>\<open>method\<close>, \<^verbatim>\<open>url\<close>,
  \<^verbatim>\<open>https\<close>, \<^verbatim>\<open>port\<close> and \<^verbatim>\<open>webSocket\<close> (present or absent alike), and with the same
  entries in \<^verbatim>\<open>headers\<close> and in \<^verbatim>\<open>query\<close>: the same keys in the same order, each with
  the same value.
\<close>

theorem annotate_rehydrate_roundtrip:
  assumes sm: "simpleMatcher m"
    and valid: "validateRouteMatcherOptions m = None"
    and nonempty: "\<forall>p \<in> set (getAllStringMatcherFields m). lodash_get m p \<noteq> JStr ''''"
  shows "(\<forall>f \<in> set (STRING_MATCHER_FIELDS @ [''https'', ''port'', ''webSocket'']).
            getProp (rehydrate (annotateMatcherOptionsTypes m)) f = getProp m f
            \<and> hasOwn (rehydrate (annotateMatcherOptionsTypes m)) f = hasOwn m f)
       \<and> (\<forall>d \<in> set DICT_STRING_MATCHER_FIELDS.
            lodash_keys (getProp (rehydrate (annotateMatcherOptionsTypes m)) d)
              = lodash_keys (getProp m d)
            \<and> (\<forall>k \<in> set (lodash_keys (getProp m d)).
                  getProp (getProp (rehydrate (annotateMatcherOptionsTypes m)) d) k
                  = getProp (getProp m d) k))"
proof -
  let ?R = "mappedMatcher restoreStringMatcher (mappedMatcher AnnotatedStringMatcher m)"
  have R: "rehydrate (annotateMatcherOptionsTypes m) = ?R"
    by (simp only: annotate_closed[OF sm] rehydrate_closed[OF mapped_simple[OF sm]])
  from sm obtain kvs where m: "m = JObj kvs" by (rule simpleMatcher_obj)
  have pm: "plainMatcher m" using sm by (rule simpleMatcher_plain)
  from valid have ok: "\<forall>p \<in> set (getAllStringMatcherFields m).
            \<not> (lodash_has m p \<and> \<not> isStringMatcher (lodash_get m p))"
    unfolding validate_None_iff by blast
  then have okT: "\<forall>f \<in> set STRING_MATCHER_FIELDS.
                    \<not> (hasOwn m f \<and> \<not> isStringOrPattern (getProp m f))"
    and okN: "\<forall>d \<in> set DICT_STRING_MATCHER_FIELDS. \<forall>k \<in> set (lodash_keys (getProp m d)).
                 isStringOrPattern (getProp (getProp m d) k)"
    unfolding string_fields_ok_iff[OF pm] by blast+
  have top: "getProp ?R f = getProp m f \<and> hasOwn ?R f = hasOwn m f"
    if f: "f = ''method'' \<or> f = ''url''" for f
  proof -
    from f have "f \<in> set STRING_MATCHER_FIELDS" by (auto simp: STRING_MATCHER_FIELDS_def)
    with okT have a: "hasOwn m f \<longrightarrow> isStringOrPattern (getProp m f)" by blast
    from f have "f \<in> set (getAllStringMatcherFields m)" unfolding paths_set by blast
    with nonempty have "lodash_get m f \<noteq> JStr ''''" by blast
    moreover from f have "CHR ''.'' \<notin> set f" by auto
    then have "lodash_get m f = getProp m f" unfolding m by (rule top_path)
    ultimately have b: "getProp m f \<noteq> JStr ''''" by simp
    from a b show ?thesis unfolding m by (intro roundtrip_top[OF f]) blast
  qed
  have picked: "getProp ?R f = getProp m f \<and> hasOwn ?R f = hasOwn m f"
    if f: "f = ''https'' \<or> f = ''port'' \<or> f = ''webSocket''" for f
    unfolding m using f by (rule roundtrip_picked)
  have dict: "lodash_keys (getProp ?R d) = lodash_keys (getProp m d)
            \<and> (\<forall>k \<in> set (lodash_keys (getProp m d)).
                  getProp (getProp ?R d) k = getProp (getProp m d) k)"
    if d: "d = ''headers'' \<or> d = ''query''" for d
  proof (rule roundtrip_dict[OF d], intro ballI conjI)
    fix k assume k: "k \<in> set (lodash_keys (getProp m d))"
    from d have "d \<in> set DICT_STRING_MATCHER_FIELDS" by (auto simp: DICT_STRING_MATCHER_FIELDS_def)
    with okN k show "isStringOrPattern (getProp (getProp m d) k)" by blast
    note np = nested_path[OF pm d k]
    from d k np(3) have "d @ CHR ''.'' # k \<in> set (getAllStringMatcherFields m)"
      by (rule paths_nested)
    with nonempty have "lodash_get m (d @ CHR ''.'' # k) \<noteq> JStr ''''" by blast
    with np(2) show "getProp (getProp m d) k \<noteq> JStr ''''" by simp
  qed
  have "\<forall>f \<in> set (STRING_MATCHER_FIELDS @ [''https'', ''port'', ''webSocket'']).
            getProp ?R f = getProp m f \<and> hasOwn ?R f = hasOwn m f"
  proof
    fix f assume "f \<in> set (STRING_MATCHER_FIELDS @ [''https'', ''port'', ''webSocket''])"
    then have "(f = ''method'' \<or> f = ''url'') \<or> (f = ''https'' \<or> f = ''port'' \<or> f = ''webSocket'')"
      by (auto simp: STRING_MATCHER_FIELDS_def)
    then show "getProp ?R f = getProp m f \<and> hasOwn ?R f = hasOwn m f"
      using top picked by blast
  qed
  moreover have "\<forall>d \<in> set DICT_STRING_MATCHER_FIELDS.
            lodash_keys (getProp ?R d) = lodash_keys (getProp m d)
            \<and> (\<forall>k \<in> set (lodash_keys (getProp m d)).
                  getProp (getProp ?R d) k = getProp (getProp m d) k)"
  proof
    fix d assume "d \<in> set DICT_STRING_MATCHER_FIELDS"
    then have "d = ''headers'' \<or> d = ''query''" by (auto simp: DICT_STRING_MATCHER_FIELDS_def)
    then show "lodash_keys (getProp ?R d) = lodash_keys (getProp m d)
            \<and> (\<forall>k \<in> set (lodash_keys (getProp m d)).
                  getProp (getProp ?R d) k = getProp (getProp m d) k)"
      by (rule dict)
  qed
  ultimately show ?thesis unfolding R by blast
qed

lemmas rehydrate_eval = rehydrate_def restoreStringMatcher_def simpleMatcher_def simpleDict_def
  simpleKey_def plainKey_def

theorem annotate_rehydrate_roundtrip_witness:
  "simpleMatcher (JObj [(''method'', JStr ''GET''), (''url'', JRegExp ''/users/i''),
                        (''headers'', JObj [(''accept'', JStr ''text/html'')]),
                        (''port'', JArr [JNum 80, JNum 443])])
   \<and> validateRouteMatcherOptions
        (JObj [(''method'', JStr ''GET''), (''url'', JRegExp ''/users/i''),
               (''headers'', JObj [(''accept'', JStr ''text/html'')]),
               (''port'', JArr [JNum 80, JNum 443])]) = None
   \<and> annotateMatcherOptionsTypes
        (JObj [(''method'', JStr ''GET''), (''url'', JRegExp ''/users/i''),
               (''headers'', JObj [(''accept'', JStr ''text/html'')]),
               (''port'', JArr [JNum 80, JNum 443])])
     = JObj [(''method'', JObj [(''type'', JStr ''glob''), (''value'', JStr ''GET'')]),
             (''url'', JObj [(''type'', JStr ''regex''), (''value'', JStr ''/users/i'')]),
             (''headers'', JObj [(''accept'', JObj [(''type'', JStr ''glob''),
                                                   (''value'', JStr ''text/html'')])]),
             (''port'', JArr [JNum 80, JNum 443])]
   \<and> getProp (rehydrate (annotateMatcherOptionsTypes
        (JObj [(''method'', JStr ''GET''), (''url'', JRegExp ''/users/i''),
               (''headers'', JObj [(''accept'', JStr ''text/html'')]),
               (''port'', JArr [JNum 80, JNum 443])]))) ''url'' = JRegExp ''/users/i''
   \<and> getProp (getProp (rehydrate (annotateMatcherOptionsTypes
        (JObj [(''method'', JStr ''GET''), (''url'', JRegExp ''/users/i''),
               (''headers'', JObj [(''accept'', JStr ''text/html'')]),
               (''port'', JArr [JNum 80, JNum 443])]))) ''headers'') ''accept''
     = JStr ''text/html''"
proof -
  let ?m = "JObj [(''method'', JStr ''GET''), (''url'', JRegExp ''/users/i''),
                  (''headers'', JObj [(''accept'', JStr ''text/html'')]),
                  (''port'', JArr [JNum 80, JNum 443])]"
  have a: "simpleMatcher ?m" by (simp add: rehydrate_eval eval_defs)
  have b: "validateRouteMatcherOptions ?m = None" by (simp add: eval_defs)
  have c: "\<forall>p \<in> set (getAllStringMatcherFields ?m). lodash_get ?m p \<noteq> JStr ''''"
    by (simp add: eval_defs)
  have d: "annotateMatcherOptionsTypes ?m
     = JObj [(''method'', JObj [(''type'', JStr ''glob''), (''value'', JStr ''GET'')]),
             (''url'', JObj [(''type'', JStr ''regex''), (''value'', JStr ''/users/i'')]),
             (''headers'', JObj [(''accept'', JObj [(''type'', JStr ''glob''),
                                                   (''value'', JStr ''text/html'')])]),
             (''port'', JArr [JNum 80, JNum 443])]"
    by (simp add: eval_defs)
  note rt = annotate_rehydrate_roundtrip[OF a b c]
  have "''url'' \<in> set (STRING_MATCHER_FIELDS @ [''https'', ''port'', ''webSocket''])"
    by (simp add: STRING_MATCHER_FIELDS_def)
  with conjunct1[OF rt]
  have u: "getProp (rehydrate (annotateMatcherOptionsTypes ?m)) ''url'' = getProp ?m ''url''"
    by blast
  have "''headers'' \<in> set DICT_STRING_MATCHER_FIELDS"
    and "''accept'' \<in> set (lodash_keys (getProp ?m ''headers''))"
    by (simp_all add: DICT_STRING_MATCHER_FIELDS_def lodash_keys_def)
  with conjunct2[OF rt]
  have h: "getProp (getProp (rehydrate (annotateMatcherOptionsTypes ?m)) ''headers'') ''accept''
         = getProp (getProp ?m ''headers'') ''accept''"
    by blast
  have "getProp ?m ''url'' = JRegExp ''/users/i''"
    and "getProp (getProp ?m ''headers'') ''accept'' = JStr ''text/html''"
    by simp_all
  with u h a b d show ?thesis by (simp only: simp_thms)
qed

text \<open>
  C5 as stated fails: \<^verbatim>\<open>{method: 'GET', url: ''}\<close> passes validation and has a \<^verbatim>\<open>url\<close>,
  but its annotated form has none, so the rehydrated matcher has none either.
\<close>

theorem empty_url_lost_in_roundtrip:
  "validateRouteMatcherOptions (JObj [(''method'', JStr ''GET''), (''url'', JStr '''')]) = None
   \<and> hasOwn (JObj [(''method'', JStr ''GET''), (''url'', JStr '''')]) ''url''
   \<and> annotateMatcherOptionsTypes (JObj [(''method'', JStr ''GET''), (''url'', JStr '''')])
     = JObj [(''method'', JObj [(''type'', JStr ''glob''), (''value'', JStr ''GET'')])]
   \<and> rehydrate (annotateMatcherOptionsTypes
        (JObj [(''method'', JStr ''GET''), (''url'', JStr '''')]))
     = JObj [(''method'', JStr ''GET'')]
   \<and> \<not> hasOwn (rehydrate (annotateMatcherOptionsTypes
          (JObj [(''method'', JStr ''GET''), (''url'', JStr '''')]))) ''url''"
  by (simp add: eval_defs rehydrate_eval)

section \<open>Keys with a dot\<close>

text \<open>
  C4 holds on plain matchers (lemma \<open>validation_iff_plain\<close>) and fails where a key of
  \<^verbatim>\<open>headers\<close> or \<^verbatim>\<open>query\<close> has a dot. In \<^verbatim>\<open>{query: {'user.name': 5}}\<close> a nested entry is
  neither a string nor a pattern, so the matcher is malformed in the spec's sense; the
  validator builds the path \<^verbatim>\<open>query.user.name\<close>, which \<^verbatim>\<open>_.has\<close> reads as three keys and
  does not find, accepts the matcher, and the registration goes through.
\<close>

theorem dotted_nested_key_escapes_validation:
  "MalformedMatcher_spec (JObj [(''query'', JObj [(''user.name'', JNum 5)])])
   \<and> getAllStringMatcherFields (JObj [(''query'', JObj [(''user.name'', JNum 5)])])
     = [''method'', ''url'', ''query.user.name'']
   \<and> \<not> lodash_has (JObj [(''query'', JObj [(''user.name'', JNum 5)])]) ''query.user.name''
   \<and> validateRouteMatcherOptions (JObj [(''query'', JObj [(''user.name'', JNum 5)])]) = None
   \<and> fst (route2 validateStaticResponse getBackendStaticResponse
            (JObj [(''query'', JObj [(''user.name'', JNum 5)])]) JUndefined JUndefined
            fresh_state) = Inr ()"
  by (simp add: eval_defs MalformedMatcher_spec_def isStringOrPattern_def)

end
